theory Spec2Isabelle
  imports Complex_Main "HOL-Library.AList"
begin

section \<open>Identity generation (\<open>Entity.make_uid\<close>)\<close>

text \<open>
  \<^verbatim>\<open>_uid_timecode_multiplier = 10000\<close> and the 58-character alphabet
  \<^verbatim>\<open>_uid_timecode_charset\<close> of \<open>entities.py\<close>.
\<close>

definition uid_timecode_multiplier :: rat where
  "uid_timecode_multiplier = 10000"

definition uid_timecode_charset :: string where
  "uid_timecode_charset =
     ''0123456789aAbBcCdDeEfFgGhHijJkKLmM'' @ ''nNopPqQrRstTuUvVwWxXyYzZ''"

text \<open>
  The clock \<open>TIMERS.time\<close> reads epoch seconds with a fraction: the comment on
  the multiplier promises "eight-digit time codes with 100 microsecond precision
  until October 25th, 2375", which is \<open>58 ^ 8\<close> units of one ten-thousandth of a
  second counted from 1970. So \<open>big_time\<close> and the counter
  \<open>Entity.__uid_timecode\<close> are fractional numbers as well. They are rationals
  here; the rounding of Python's floats is not modelled.

  Modelled from the spec: \<open>utils.funcs.int_to_base_n\<close> is imported by
  \<open>entities.py\<close> but is not among the sources. The spec says the timecode is
  "rendered in a fixed custom base-N alphabet": the positional rendering of a
  non-negative integer, most significant digit first, the digit \<open>d\<close> written as
  the \<open>d\<close>-th character of the alphabet, and \<open>0\<close> written as the single zero
  digit. The division loop only runs for a base of at least two. Of a fractional
  argument the integer part is rendered: the example in the docstring of
  \<open>make_uid\<close>, \<^verbatim>\<open>E-6jQZ4zvH\<close>, is the rendering of \<open>14302659986633\<close>, a clock
  reading of April 2015 in units of one ten-thousandth of a second.
\<close>

function base_n_digits :: "nat \<Rightarrow> nat \<Rightarrow> nat list \<Rightarrow> nat list" where
  "base_n_digits b n acc =
     (if b < 2 \<or> n = 0 then acc else base_n_digits b (n div b) ((n mod b) # acc))"
  by pat_completeness auto
termination
  by (relation "measure (\<lambda>(b, n, acc). n)") auto

definition int_to_base_n :: "rat \<Rightarrow> string \<Rightarrow> string" where
  "int_to_base_n integer charset =
     (if nat \<lfloor>integer\<rfloor> = 0 then [charset ! 0]
      else map (\<lambda>d. charset ! d) (base_n_digits (length charset) (nat \<lfloor>integer\<rfloor>) []))"

text \<open>
  \<open>Entity.make_uid\<close>. The arguments are the class's \<open>_uid_code\<close>, the value of
  \<open>TIMERS.time\<close> read by this call, and the class attribute
  \<open>Entity.__uid_timecode\<close> before the call; the result is the identifier and
  the class attribute after the call.
\<close>

definition make_uid :: "string \<Rightarrow> rat \<Rightarrow> rat \<Rightarrow> string \<times> rat" where
  "make_uid uid_code time uid_timecode =
     (let big_time = time * uid_timecode_multiplier;
          uid_timecode' = (if big_time > uid_timecode then big_time else uid_timecode + 1);
          timecode_string = int_to_base_n uid_timecode' uid_timecode_charset
      in (uid_code @ ''-'' @ timecode_string, uid_timecode'))"

text \<open>
  A sequence of calls within one process: each request is the calling class's code
  and the clock value that call reads; the result lists, per call, the identifier
  and the counter value it was rendered from.
\<close>

fun make_uids :: "rat \<Rightarrow> (string \<times> rat) list \<Rightarrow> (string \<times> rat) list" where
  "make_uids uid_timecode [] = []"
| "make_uids uid_timecode ((uid_code, time) # reqs) =
     (let (uid, uid_timecode') = make_uid uid_code time uid_timecode
      in (uid, uid_timecode') # make_uids uid_timecode' reqs)"

declare base_n_digits.simps [simp del]

section \<open>Values, descriptors and blobs (\<open>entities.py\<close>)\<close>

text \<open>
  Field values, storage keys, identifiers and tag values are Python scalars: the
  \<open>Unset\<close> sentinel class, \<open>None\<close>, integers and strings (the values the
  descriptors of \<open>entities.py\<close> and \<open>world.py\<close> accept). On these, Python's
  \<open>==\<close> is equality and \<open>is not Unset\<close> is \<open>\<noteq> Unset\<close>.
\<close>

datatype pyval = Unset | PNone | PInt int | PStr string

text \<open>
  What \<open>serialize\<close> produces and a store holds: a dict from names to a scalar,
  to a tuple of scalars (the flags) or to a nested dict (a sub-blob, the tags).
  A dict is an association list without repeated keys, in insertion order;
  \<open>d[k] = v\<close> is \<open>AList.update k v d\<close> and \<open>del d[k]\<close> is \<open>AList.delete k d\<close>.
\<close>

datatype data = DVal pyval | DTuple "pyval list" | DDict "(string \<times> data) list"

type_synonym pydict = "(string \<times> data) list"

text \<open>The exceptions the modelled code raises.\<close>

datatype error = AlreadyExists | TypeError | KeyError | ValueError | AttributeError

text \<open>
  A \<open>DataBlob\<close> instance: its \<open>_attr_values\<close> dict and its \<open>_blobs\<close> dict of
  sub-blob instances.
\<close>

datatype blob = Blob (attr_values: "(string \<times> pyval) list") (blobs: "(string \<times> blob) list")

text \<open>
  An entity instance: \<open>_uid\<close>, \<open>_dirty\<close>, \<open>_savable\<close>, \<open>active\<close>, the flag and
  tag collections of the \<open>HasFlags\<close> and \<open>HasTags\<close> mixins, and \<open>_base_blob\<close>.
\<close>

record entity =
  uid :: pyval
  is_dirty :: bool
  savable :: bool
  active :: bool
  flags :: "pyval list"
  tags :: "(string \<times> pyval) list"
  base_blob :: blob

text \<open>
  \<open>pylru.lrucache\<close> (a library outside the repository), as \<open>entities.py\<close> uses
  it: a table of at most \<open>capacity\<close> entries, kept most recently used first.
  \<open>key in cache\<close> does not touch the order; \<open>cache[key]\<close> moves the entry to the
  front; \<open>cache[key] = value\<close> puts the entry at the front and, when the key is new
  and the table is full, drops the last entry; \<open>del cache[key]\<close> removes the entry.
  The constructor refuses a size of zero. The values are references to entities.
\<close>

record lrucache =
  capacity :: nat
  entries :: "(pyval \<times> nat) list"

definition lru_contains :: "lrucache \<Rightarrow> pyval \<Rightarrow> bool" where
  "lru_contains c k = (map_of (entries c) k \<noteq> None)"

definition lru_lookup :: "lrucache \<Rightarrow> pyval \<Rightarrow> nat option" where
  "lru_lookup c k = map_of (entries c) k"

definition lru_touch :: "lrucache \<Rightarrow> pyval \<Rightarrow> lrucache" where
  "lru_touch c k =
     (case map_of (entries c) k of
        None \<Rightarrow> c
      | Some v \<Rightarrow> c\<lparr>entries := (k, v) # AList.delete k (entries c)\<rparr>)"

definition lru_set :: "lrucache \<Rightarrow> pyval \<Rightarrow> nat \<Rightarrow> lrucache" where
  "lru_set c k v =
     (if lru_contains c k then c\<lparr>entries := (k, v) # AList.delete k (entries c)\<rparr>
      else c\<lparr>entries := (k, v) # take (capacity c - 1) (entries c)\<rparr>)"

definition lru_del :: "lrucache \<Rightarrow> pyval \<Rightarrow> lrucache" where
  "lru_del c k = c\<lparr>entries := AList.delete k (entries c)\<rparr>"

text \<open>
  Modelled from the spec: the store classes (\<open>storage.DataStore\<close>) are not among
  the sources. The spec gives the capability set \<open>has(key)\<close>, \<open>get(key, default)\<close>,
  \<open>put(key, record)\<close>, \<open>delete(key)\<close> and \<open>keys()\<close> of a durable key/value
  backing: a dict from keys to records. \<open>get\<close> without a default raises
  \<open>KeyError\<close> for a key with no record (\<open>Entity.find\<close> catches it).
\<close>

type_synonym store = "(pyval \<times> pydict) list"

definition store_has :: "store \<Rightarrow> pyval \<Rightarrow> bool" where
  "store_has s k = (map_of s k \<noteq> None)"

definition store_get :: "store \<Rightarrow> pyval \<Rightarrow> error + pydict" where
  "store_get s k = (case map_of s k of None \<Rightarrow> Inl KeyError | Some d \<Rightarrow> Inr d)"

definition store_get_default :: "store \<Rightarrow> pyval \<Rightarrow> pydict option" where
  "store_get_default s k = map_of s k"

definition store_put :: "store \<Rightarrow> pyval \<Rightarrow> pydict \<Rightarrow> store" where
  "store_put s k d = AList.update k d s"

definition store_delete :: "store \<Rightarrow> pyval \<Rightarrow> store" where
  "store_delete s k = AList.delete k s"

definition store_keys :: "store \<Rightarrow> pyval list" where
  "store_keys s = map fst s"

text \<open>
  The state the operations of one entity class work on: the objects of the class
  by reference (\<open>heap\<close>, \<open>next_ref\<close> the next unused reference), the class's
  \<open>_instances\<close> table (identifier to entity), its \<open>_caches\<close> (key name to cache),
  its \<open>_store\<close> (\<open>None\<close> when the class has none), the counter
  \<open>Entity.__uid_timecode\<close> and the current value of \<open>TIMERS.time\<close>.

  \<open>_instances\<close> is a \<open>WeakValueDictionary\<close>: the collector removes the entry of
  an entity nothing else refers to. Collection is not modelled; a state simply
  need not contain such an entry.
\<close>

record world =
  heap :: "nat \<Rightarrow> entity option"
  next_ref :: nat
  instances :: "(pyval \<times> nat) list"
  caches :: "(string \<times> lrucache) list"
  store :: "store option"
  uid_timecode :: rat
  time :: rat

text \<open>
  An operation returns a value or raises, and leaves a state behind either way.
\<close>

type_synonym 'a outcome = "(error + 'a) \<times> world"

definition andthen :: "'a outcome \<Rightarrow> ('a \<Rightarrow> world \<Rightarrow> 'b outcome) \<Rightarrow> 'b outcome" where
  "andthen m f = (case m of (Inl e, w) \<Rightarrow> (Inl e, w) | (Inr x, w) \<Rightarrow> f x w)"

text \<open>
  An \<open>Attribute\<close> subclass: \<open>default\<close>, \<open>read_only\<close> and the class methods
  \<open>_validate\<close>, \<open>_finalize\<close>, \<open>_serialize\<close>, \<open>_deserialize\<close>. \<open>_validate\<close>
  receives the candidate value and the entity (here its reference); it returns
  the value to commit or raises, and it is ordinary code that can change the
  state on the way: \<open>RoomX._validate\<close>, \<open>RoomY._validate\<close> and \<open>RoomZ._validate\<close>
  of \<open>world.py\<close> call \<open>Room.load\<close>, which reorders and fills the cache and can
  construct and register an entity from the store, and they raise exactly when
  that call found a room. So \<open>_validate\<close> is an operation on the state.
  \<open>_finalize\<close> is overridden by no descriptor of the sources; it reads the state
  and returns the value. \<open>_changed\<close> has an empty body in \<open>Attribute\<close> and no
  descriptor of the sources overrides it, so the call at the end of
  \<open>_set_attr_val\<close> has no effect.
\<close>

record attribute =
  a_default :: pyval
  a_read_only :: bool
  a_validate :: "pyval \<Rightarrow> nat \<Rightarrow> world \<Rightarrow> pyval outcome"
  a_finalize :: "pyval \<Rightarrow> nat \<Rightarrow> world \<Rightarrow> pyval"
  a_serialize :: "pyval \<Rightarrow> pyval"
  a_deserialize :: "pyval \<Rightarrow> pyval"

text \<open>The base class \<open>Attribute\<close>: unset by default, every hook the identity.\<close>

definition Attribute :: attribute where
  "Attribute =
     \<lparr>a_default = Unset, a_read_only = False,
      a_validate = (\<lambda>new_value entity w. (Inr new_value, w)),
      a_finalize = (\<lambda>new_value entity w. new_value),
      a_serialize = (\<lambda>v. v), a_deserialize = (\<lambda>v. v)\<rparr>"

text \<open>
  A \<open>DataBlob\<close> subclass: its \<open>_attrs\<close> (field name to descriptor) and \<open>_blobs\<close>
  (field name to blob class).
\<close>

datatype blob_class =
  BlobClass (attrs: "(string \<times> attribute) list") (blob_classes: "(string \<times> blob_class) list")

text \<open>
  \<open>_store_key\<close>: the name of an attribute of the entity, or a triple of a name, a
  getter and a setter over other fields. A getter (\<open>Room.get_coord_str\<close>)
  computes the key from the entity's field values. A setter
  (\<open>Room.set_coord_from_str\<close>) computes field values from the new key, or
  raises, and then assigns them to the entity's fields in order.
\<close>

datatype store_key =
  KeyName string
| KeyTriple string "blob \<Rightarrow> pyval" "pyval \<Rightarrow> error + (string \<times> pyval) list"

text \<open>
  An entity class: \<open>_uid_code\<close>, \<open>_store_key\<close>, and the attributes and sub-blobs
  of its base blob once the blobs of its ancestors are merged in (the merge itself
  is the subject of the section on schema composition).
\<close>

record entity_class =
  uid_code :: string
  store_key :: store_key
  base_blob_class :: blob_class

section \<open>Blobs and entities: the operations\<close>

subsection \<open>\<open>DataBlob\<close>\<close>

text \<open>
  \<open>DataBlob.__init__\<close>: every attribute starts at its descriptor's default and
  every sub-blob class is instantiated.
\<close>

fun new_blob :: "blob_class \<Rightarrow> blob" where
  "new_blob (BlobClass as bcs) =
     Blob (map (\<lambda>ka. (fst ka, a_default (snd ka))) as)
          (map (\<lambda>kb. (fst kb, new_blob (snd kb))) bcs)"

text \<open>
  A blob of an entity is reached from the base blob through the names of the
  sub-blobs on the way (\<open>entity.<name>.<name>\<close>); the empty path is the base blob.
\<close>

fun blob_at :: "blob \<Rightarrow> string list \<Rightarrow> blob option" where
  "blob_at b [] = Some b"
| "blob_at b (p # ps) =
     (case map_of (blobs b) p of None \<Rightarrow> None | Some b' \<Rightarrow> blob_at b' ps)"

fun blob_class_at :: "blob_class \<Rightarrow> string list \<Rightarrow> blob_class option" where
  "blob_class_at bc [] = Some bc"
| "blob_class_at bc (p # ps) =
     (case map_of (blob_classes bc) p of None \<Rightarrow> None | Some bc' \<Rightarrow> blob_class_at bc' ps)"

text \<open>\<open>_get_attr_val\<close>: \<open>self._attr_values.get(name)\<close>, \<open>None\<close> for a missing name.\<close>

definition get_attr_val :: "blob \<Rightarrow> string \<Rightarrow> pyval" where
  "get_attr_val b name = (case map_of (attr_values b) name of None \<Rightarrow> PNone | Some v \<Rightarrow> v)"

text \<open>\<open>self._attr_values[name] = value\<close> on the blob at a path.\<close>

fun blob_assign :: "blob \<Rightarrow> string list \<Rightarrow> string \<Rightarrow> pyval \<Rightarrow> blob" where
  "blob_assign (Blob vs bs) [] name v = Blob (AList.update name v vs) bs"
| "blob_assign (Blob vs bs) (p # ps) name v =
     Blob vs (AList.map_entry p (\<lambda>b. blob_assign b ps name v) bs)"

subsection \<open>Keys\<close>

text \<open>
  \<open>Entity.get_key_name\<close> and the property \<open>Entity.key\<close>. With a triple the
  getter is called; otherwise \<open>getattr(self, self._store_key)\<close> reads the property
  of that name: \<open>uid\<close>, or a registered attribute (\<open>_get_attr_val\<close>). (A class
  whose \<open>_store_key\<close> names nothing has no instances: \<open>__init__\<close> reads
  \<open>self.key\<close>.)
\<close>

definition get_key_name :: "entity_class \<Rightarrow> string" where
  "get_key_name cls = (case store_key cls of KeyTriple name getter setter \<Rightarrow> name | KeyName name \<Rightarrow> name)"

definition key :: "entity_class \<Rightarrow> entity \<Rightarrow> pyval" where
  "key cls e =
     (case store_key cls of
        KeyTriple name getter setter \<Rightarrow> getter (base_blob e)
      | KeyName name \<Rightarrow> if name = ''uid'' then uid e else get_attr_val (base_blob e) name)"

subsection \<open>\<open>DataBlob._set_attr_val\<close>\<close>

text \<open>
  The arguments are the class and reference of the blob's entity, the path of the
  blob, and \<open>name\<close>, \<open>value\<close>, \<open>validate\<close> and \<open>raw\<close> as in the source.
  \<open>self._attrs[name]\<close> raises \<open>KeyError\<close> for a name without descriptor. An
  error of \<open>_validate\<close> leaves the function at once, with the state \<open>_validate\<close>
  left. Setting the tag goes through \<open>_tags_changed\<close>, which marks the entity
  dirty, as the call of \<open>entity.dirty()\<close> at the end does.

  \<open>relocate\<close> is the cache update of lines 145 to 149, and \<open>commit_attr_val\<close>
  is the function from \<open>old_key = entity.key\<close> on, run in the state the hooks left
  (the entity is held by the call, so it is there).
\<close>

definition relocate :: "entity_class \<Rightarrow> nat \<Rightarrow> pyval \<Rightarrow> pyval \<Rightarrow> world \<Rightarrow> world" where
  "relocate cls r old_key new_key w =
     (case map_of (caches w) (get_key_name cls) of
        None \<Rightarrow> w
      | Some cache \<Rightarrow>
          let cache1 = (if lru_contains cache old_key then lru_del cache old_key else cache);
              cache2 = lru_set cache1 new_key r
          in w\<lparr>caches := AList.update (get_key_name cls) cache2 (caches w)\<rparr>)"

definition commit_attr_val ::
  "entity_class \<Rightarrow> nat \<Rightarrow> string list \<Rightarrow> string \<Rightarrow> pyval \<Rightarrow> world \<Rightarrow> unit outcome" where
  "commit_attr_val cls r path name value w =
     (case heap w r of
        None \<Rightarrow> (Inl AttributeError, w)
      | Some entity \<Rightarrow>
          let old_key = key cls entity;
              entity1 = entity\<lparr>base_blob := blob_assign (base_blob entity) path name value\<rparr>
          in if key cls entity1 \<noteq> old_key then
               let entity2 = entity1\<lparr>tags := AList.update ''_old_key'' old_key (tags entity1),
                                      is_dirty := True\<rparr>;
                   w1 = relocate cls r old_key (key cls entity2) (w\<lparr>heap := (heap w)(r \<mapsto> entity2)\<rparr>)
               in (Inr (), w1)
             else (Inr (), w\<lparr>heap := (heap w)(r \<mapsto> entity1\<lparr>is_dirty := True\<rparr>)\<rparr>))"

definition set_attr_val ::
  "entity_class \<Rightarrow> nat \<Rightarrow> string list \<Rightarrow> string \<Rightarrow> pyval \<Rightarrow> bool \<Rightarrow> bool \<Rightarrow> world \<Rightarrow> unit outcome" where
  "set_attr_val cls r path name value validate raw w =
     (case heap w r of
        None \<Rightarrow> (Inl AttributeError, w)
      | Some entity \<Rightarrow>
     (case blob_class_at (base_blob_class cls) path of
        None \<Rightarrow> (Inl AttributeError, w)
      | Some bc \<Rightarrow>
     (case map_of (attrs bc) name of
        None \<Rightarrow> (Inl KeyError, w)
      | Some attr \<Rightarrow>
          andthen (if value \<noteq> Unset \<and> validate then a_validate attr value r w else (Inr value, w))
            (\<lambda>validated w1.
               commit_attr_val cls r path name
                 (if value \<noteq> Unset \<and> \<not> raw then a_finalize attr validated r w1 else validated)
                 w1))))"

text \<open>
  Assigning to an attribute of the entity, \<open>entity.<name> = value\<close>: the property
  \<open>_EntityMeta.register_attr\<close> installs calls \<open>_base_blob._set_attr_val(name, v)\<close>
  unless the descriptor is read-only, when it does nothing. \<open>uid\<close> is a property
  without setter, so assigning to it raises \<open>AttributeError\<close>. (Any other name
  would become a plain instance attribute, which the state does not record.)
\<close>

definition entity_setattr :: "entity_class \<Rightarrow> nat \<Rightarrow> string \<Rightarrow> pyval \<Rightarrow> world \<Rightarrow> unit outcome" where
  "entity_setattr cls r name value w =
     (if name = ''uid'' then (Inl AttributeError, w)
      else case map_of (attrs (base_blob_class cls)) name of
             None \<Rightarrow> (Inr (), w)
           | Some attr \<Rightarrow>
               if a_read_only attr then (Inr (), w)
               else set_attr_val cls r [] name value True False w)"

fun entity_setattrs :: "entity_class \<Rightarrow> nat \<Rightarrow> (string \<times> pyval) list \<Rightarrow> world \<Rightarrow> unit outcome" where
  "entity_setattrs cls r [] w = (Inr (), w)"
| "entity_setattrs cls r ((name, value) # rest) w =
     andthen (entity_setattr cls r name value w) (\<lambda>u. entity_setattrs cls r rest)"

text \<open>The setter of the property \<open>Entity.key\<close>.\<close>

definition set_key :: "entity_class \<Rightarrow> nat \<Rightarrow> pyval \<Rightarrow> world \<Rightarrow> unit outcome" where
  "set_key cls r new_key w =
     (case store_key cls of
        KeyTriple name getter setter \<Rightarrow>
          (case setter new_key of
             Inl err \<Rightarrow> (Inl err, w)
           | Inr assignments \<Rightarrow> entity_setattrs cls r assignments w)
      | KeyName name \<Rightarrow> entity_setattr cls r name new_key w)"

subsection \<open>\<open>DataBlob.serialize\<close> and \<open>DataBlob.deserialize\<close>\<close>

text \<open>
  The second loop of \<open>serialize\<close>: a name already in \<open>data\<close> (a sub-blob's) raises
  \<open>KeyError\<close>; a value other than \<open>Unset\<close> goes through \<open>_serialize\<close>.
\<close>

fun serialize_attrs :: "(string \<times> attribute) list \<Rightarrow> blob \<Rightarrow> pydict \<Rightarrow> error + pydict" where
  "serialize_attrs [] b data = Inr data"
| "serialize_attrs ((k, attr) # rest) b data =
     (if map_of data k \<noteq> None then Inl KeyError
      else let value = get_attr_val b k;
               value' = (if value \<noteq> Unset then a_serialize attr value else value)
           in serialize_attrs rest b (AList.update k (DVal value') data))"

text \<open>
  \<open>serialize\<close>, with its first loop over the sub-blob instances; the class of a
  sub-blob is the one registered under its name.
\<close>

fun blob_serialize :: "blob_class \<Rightarrow> blob \<Rightarrow> error + pydict"
  and serialize_blobs :: "blob_class \<Rightarrow> (string \<times> blob) list \<Rightarrow> pydict \<Rightarrow> error + pydict" where
  "blob_serialize bc (Blob vs bs) =
     (case serialize_blobs bc bs [] of
        Inl err \<Rightarrow> Inl err
      | Inr data \<Rightarrow> serialize_attrs (attrs bc) (Blob vs bs) data)"
| "serialize_blobs bc [] data = Inr data"
| "serialize_blobs bc ((k, b) # rest) data =
     (case map_of (blob_classes bc) k of
        None \<Rightarrow> Inl AttributeError
      | Some bc' \<Rightarrow>
          (case blob_serialize bc' b of
             Inl err \<Rightarrow> Inl err
           | Inr d \<Rightarrow> serialize_blobs bc rest (AList.update k (DDict d) data)))"

text \<open>
  \<open>deserialize\<close> of the blob at \<open>path\<close>: a key of \<open>_attrs\<close> is committed through
  \<open>_set_attr_val(key, value, validate=False, raw=True)\<close>, after \<open>_deserialize\<close>
  unless the value is \<open>Unset\<close>; a key of \<open>_blobs\<close> recurses; any other key is
  logged and dropped. (A container where a scalar is expected, and the converse,
  are outside the value model and give \<open>TypeError\<close>.)
\<close>

fun blob_deserialize :: "entity_class \<Rightarrow> nat \<Rightarrow> string list \<Rightarrow> pydict \<Rightarrow> world \<Rightarrow> unit outcome" where
  "blob_deserialize cls r path [] w = (Inr (), w)"
| "blob_deserialize cls r path ((k, value) # rest) w =
     (case blob_class_at (base_blob_class cls) path of
        None \<Rightarrow> (Inl AttributeError, w)
      | Some bc \<Rightarrow>
          (case map_of (attrs bc) k of
             Some attr \<Rightarrow>
               (case value of
                  DVal v \<Rightarrow>
                    andthen
                      (set_attr_val cls r path k (if v \<noteq> Unset then a_deserialize attr v else v)
                         False True w)
                      (\<lambda>u. blob_deserialize cls r path rest)
                | DTuple vs \<Rightarrow> (Inl TypeError, w)
                | DDict d \<Rightarrow> (Inl TypeError, w))
           | None \<Rightarrow>
               (if map_of (blob_classes bc) k \<noteq> None then
                  (case value of
                     DDict d \<Rightarrow>
                       andthen (blob_deserialize cls r (path @ [k]) d w)
                         (\<lambda>u. blob_deserialize cls r path rest)
                   | DVal v \<Rightarrow> (Inl TypeError, w)
                   | DTuple vs \<Rightarrow> (Inl TypeError, w))
                else blob_deserialize cls r path rest w)))"

subsection \<open>\<open>Entity\<close>\<close>

definition the_entity :: "world \<Rightarrow> nat \<Rightarrow> entity" where
  "the_entity w r = the (heap w r)"

definition update_entity :: "nat \<Rightarrow> (entity \<Rightarrow> entity) \<Rightarrow> world \<Rightarrow> world" where
  "update_entity r f w =
     (case heap w r of None \<Rightarrow> w | Some entity \<Rightarrow> w\<lparr>heap := (heap w)(r \<mapsto> f entity)\<rparr>)"

text \<open>
  \<open>Entity.serialize\<close>: the base blob's data with \<open>uid\<close>, \<open>flags\<close> and \<open>tags\<close>
  written over it.
\<close>

definition tags_data :: "(string \<times> pyval) list \<Rightarrow> data" where
  "tags_data ts = DDict (map (\<lambda>kv. (fst kv, DVal (snd kv))) ts)"

definition entity_serialize :: "entity_class \<Rightarrow> entity \<Rightarrow> error + pydict" where
  "entity_serialize cls entity =
     (case blob_serialize (base_blob_class cls) (base_blob entity) of
        Inl err \<Rightarrow> Inl err
      | Inr data \<Rightarrow>
          Inr (AList.update ''tags'' (tags_data (tags entity))
                (AList.update ''flags'' (DTuple (flags entity))
                  (AList.update ''uid'' (DVal (uid entity)) data))))"

text \<open>
  Modelled from the spec: the mixins \<open>HasFlags\<close> and \<open>HasTags\<close> are not among the
  sources. The spec's record shape has \<open>flags\<close> as a sequence of flag names and
  \<open>tags\<close> as a mapping; \<open>flags.add\<close> adds the names not yet present, and a
  change of either collection calls \<open>_flags_changed\<close> or \<open>_tags_changed\<close> of
  \<open>entities.py\<close>, which mark the entity dirty.
\<close>

definition flags_add :: "pyval list \<Rightarrow> entity \<Rightarrow> entity" where
  "flags_add names entity =
     entity\<lparr>flags := flags entity @ filter (\<lambda>n. n \<notin> set (flags entity)) (remdups names),
            is_dirty := True\<rparr>"

fun tags_of_data :: "pydict \<Rightarrow> (string \<times> pyval) list option" where
  "tags_of_data [] = Some []"
| "tags_of_data ((k, DVal v) # rest) =
     (case tags_of_data rest of None \<Rightarrow> None | Some ts \<Rightarrow> Some ((k, v) # ts))"
| "tags_of_data ((k, other) # rest) = None"

text \<open>
  \<open>Entity.deserialize\<close>: the reserved entries \<open>uid\<close>, \<open>flags\<close> and \<open>tags\<close> are
  taken out of the data in this order, the rest goes to the base blob.
\<close>

definition deserialize_uid :: "nat \<Rightarrow> pydict \<Rightarrow> world \<Rightarrow> pydict outcome" where
  "deserialize_uid r data w =
     (case map_of data ''uid'' of
        None \<Rightarrow> (Inr data, w)
      | Some (DVal u) \<Rightarrow> (Inr (AList.delete ''uid'' data), update_entity r (\<lambda>e. e\<lparr>uid := u\<rparr>) w)
      | Some other \<Rightarrow> (Inl TypeError, w))"

definition deserialize_flags :: "nat \<Rightarrow> pydict \<Rightarrow> world \<Rightarrow> pydict outcome" where
  "deserialize_flags r data w =
     (case map_of data ''flags'' of
        None \<Rightarrow> (Inr data, w)
      | Some (DTuple names) \<Rightarrow> (Inr (AList.delete ''flags'' data), update_entity r (flags_add names) w)
      | Some other \<Rightarrow> (Inl TypeError, w))"

definition deserialize_tags :: "nat \<Rightarrow> pydict \<Rightarrow> world \<Rightarrow> pydict outcome" where
  "deserialize_tags r data w =
     (case map_of data ''tags'' of
        None \<Rightarrow> (Inr data, w)
      | Some (DDict d) \<Rightarrow>
          (case tags_of_data d of
             None \<Rightarrow> (Inl TypeError, w)
           | Some ts \<Rightarrow>
               (Inr (AList.delete ''tags'' data),
                update_entity r (\<lambda>e. e\<lparr>tags := ts, is_dirty := True\<rparr>) w))
      | Some other \<Rightarrow> (Inl TypeError, w))"

definition entity_deserialize :: "entity_class \<Rightarrow> nat \<Rightarrow> pydict \<Rightarrow> world \<Rightarrow> unit outcome" where
  "entity_deserialize cls r data w =
     andthen (deserialize_uid r data w) (\<lambda>data1 w1.
     andthen (deserialize_flags r data1 w1) (\<lambda>data2 w2.
     andthen (deserialize_tags r data2 w2) (\<lambda>data3 w3.
       blob_deserialize cls r [] data3 w3)))"

text \<open>
  \<open>Entity.__init__(data, active, savable)\<close>. The new object gets the next
  reference. Its base blob is a fresh instance of the merged blob class. After
  the optional \<open>deserialize\<close>, an entity without identifier gets one from
  \<open>make_uid\<close>; then it is entered in \<open>_instances\<close> under its identifier and, when
  the class has a cache for its key name and the key is not in it, in that cache.
\<close>

definition assign_uid :: "entity_class \<Rightarrow> nat \<Rightarrow> world \<Rightarrow> world" where
  "assign_uid cls r w =
     (if uid (the_entity w r) = PNone then
        let (new_uid, timecode) = make_uid (uid_code cls) (time w) (uid_timecode w)
        in update_entity r (\<lambda>e. e\<lparr>uid := PStr new_uid\<rparr>) (w\<lparr>uid_timecode := timecode\<rparr>)
      else w)"

definition register_instance :: "entity_class \<Rightarrow> nat \<Rightarrow> world \<Rightarrow> world" where
  "register_instance cls r w =
     (let entity = the_entity w r;
          w1 = w\<lparr>instances := AList.update (uid entity) r (instances w)\<rparr>
      in (case map_of (caches w1) (get_key_name cls) of
            None \<Rightarrow> w1
          | Some cache \<Rightarrow>
              if \<not> lru_contains cache (key cls entity) then
                w1\<lparr>caches := AList.update (get_key_name cls) (lru_set cache (key cls entity) r) (caches w1)\<rparr>
              else w1))"

definition new_entity :: "entity_class \<Rightarrow> bool \<Rightarrow> bool \<Rightarrow> entity" where
  "new_entity cls act sav =
     \<lparr>uid = PNone, is_dirty = False, savable = sav, active = act, flags = [], tags = [],
      base_blob = new_blob (base_blob_class cls)\<rparr>"

definition init_entity :: "entity_class \<Rightarrow> pydict option \<Rightarrow> bool \<Rightarrow> bool \<Rightarrow> world \<Rightarrow> nat outcome" where
  "init_entity cls data act sav w =
     (let r = next_ref w;
          w0 = w\<lparr>heap := (heap w)(r \<mapsto> new_entity cls act sav), next_ref := Suc r\<rparr>
      in andthen (case data of None \<Rightarrow> (Inr (), w0) | Some d \<Rightarrow> entity_deserialize cls r d w0)
           (\<lambda>u w1. (Inr r, register_instance cls r (assign_uid cls r w1))))"

text \<open>
  \<open>Entity.save\<close>. \<open>is_savable\<close> is \<open>self._store and self._savable\<close>; an entity that
  is not savable is left alone (a warning is logged). Deleting the tag goes through
  \<open>_tags_changed\<close>.
\<close>

definition save :: "entity_class \<Rightarrow> nat \<Rightarrow> world \<Rightarrow> unit outcome" where
  "save cls r w =
     (case heap w r of
        None \<Rightarrow> (Inl AttributeError, w)
      | Some entity \<Rightarrow>
     (case store w of
        None \<Rightarrow> (Inr (), w)
      | Some s \<Rightarrow>
          if \<not> savable entity then (Inr (), w)
          else
            let (entity1, s1) =
                  (case map_of (tags entity) ''_old_key'' of
                     None \<Rightarrow> (entity, s)
                   | Some old_key \<Rightarrow>
                       (entity\<lparr>tags := AList.delete ''_old_key'' (tags entity), is_dirty := True\<rparr>,
                        if store_has s old_key then store_delete s old_key else s));
                w1 = w\<lparr>heap := (heap w)(r \<mapsto> entity1), store := Some s1\<rparr>
            in (case entity_serialize cls entity1 of
                  Inl err \<Rightarrow> (Inl err, w1)
                | Inr data \<Rightarrow>
                    (Inr (),
                     w1\<lparr>heap := (heap w1)(r \<mapsto> entity1\<lparr>is_dirty := False\<rparr>),
                        store := Some (store_put s1 (key cls entity1) data)\<rparr>))))"

text \<open>
  \<open>Entity.clone(new_key)\<close>, for a key given as a value. The new entity is made by
  \<open>entity_class(data)\<close>, so inactive and savable.
\<close>

definition clone :: "entity_class \<Rightarrow> nat \<Rightarrow> pyval \<Rightarrow> world \<Rightarrow> nat outcome" where
  "clone cls r new_key w =
     (case heap w r of
        None \<Rightarrow> (Inl AttributeError, w)
      | Some entity \<Rightarrow>
     (case store w of
        None \<Rightarrow> (Inl TypeError, w)
      | Some s \<Rightarrow>
          if store_has s new_key then (Inl KeyError, w)
          else
            (case entity_serialize cls entity of
               Inl err \<Rightarrow> (Inl err, w)
             | Inr data \<Rightarrow>
                 andthen (init_entity cls (Some (AList.delete ''uid'' data)) False True w)
                   (\<lambda>new_ref w1.
                      andthen (set_key cls new_ref new_key w1) (\<lambda>u w2. (Inr new_ref, w2))))))"

subsection \<open>\<open>Entity.load\<close>\<close>

text \<open>
  The \<open>default\<close> argument of \<open>load\<close>: a value to return, or an exception class to
  raise (\<open>KeyError\<close> unless the caller says otherwise). The result is the entity
  found or the default value.
\<close>

datatype default_arg = DefaultValue pyval | DefaultError error

datatype loaded = Found nat | Default pyval

text \<open>
  The loop \<open>for entity in cls._instances.values(): if entity.key == key: return
  entity\<close>.
\<close>

fun instance_with_key :: "entity_class \<Rightarrow> pyval \<Rightarrow> (pyval \<times> nat) list \<Rightarrow> world \<Rightarrow> nat option" where
  "instance_with_key cls k [] w = None"
| "instance_with_key cls k ((u, r) # rest) w =
     (case heap w r of
        None \<Rightarrow> instance_with_key cls k rest w
      | Some entity \<Rightarrow> if key cls entity = k then Some r else instance_with_key cls k rest w)"

text \<open>
  The first half of the inner function \<open>_find\<close>, run when \<open>from_cache\<close> is true:
  the \<open>_instances\<close> table when the key name is \<open>uid\<close>, then the cache (reading
  \<open>cache[key]\<close> moves the entry to the front), then the scan of the instances
  when the key name is not \<open>uid\<close>.
\<close>

definition find_cached :: "entity_class \<Rightarrow> pyval \<Rightarrow> world \<Rightarrow> nat option \<times> world" where
  "find_cached cls k w =
     (if get_key_name cls = ''uid'' \<and> map_of (instances w) k \<noteq> None then (map_of (instances w) k, w)
      else
        (case map_of (caches w) (get_key_name cls) of
           Some cache \<Rightarrow>
             if lru_contains cache k then
               (lru_lookup cache k,
                w\<lparr>caches := AList.update (get_key_name cls) (lru_touch cache k) (caches w)\<rparr>)
             else if get_key_name cls \<noteq> ''uid'' then (instance_with_key cls k (instances w) w, w)
             else (None, w)
         | None \<Rightarrow>
             if get_key_name cls \<noteq> ''uid'' then (instance_with_key cls k (instances w) w, w)
             else (None, w)))"

text \<open>
  The second half of \<open>_find\<close>: \<open>cls._store.get(key, default=None)\<close>, and for data
  that is not empty \<open>entity = cls(data); entity._dirty = False\<close>.
\<close>

definition find_stored :: "entity_class \<Rightarrow> pyval \<Rightarrow> world \<Rightarrow> nat option outcome" where
  "find_stored cls k w =
     (case store w of
        None \<Rightarrow> (Inr None, w)
      | Some s \<Rightarrow>
          (case store_get_default s k of
             None \<Rightarrow> (Inr None, w)
           | Some data \<Rightarrow>
               if data = [] then (Inr None, w)
               else andthen (init_entity cls (Some data) False True w)
                      (\<lambda>r w1. (Inr (Some r), update_entity r (\<lambda>e. e\<lparr>is_dirty := False\<rparr>) w1))))"

definition load_find :: "entity_class \<Rightarrow> pyval \<Rightarrow> bool \<Rightarrow> world \<Rightarrow> nat option outcome" where
  "load_find cls k from_cache w =
     (if from_cache then
        (case find_cached cls k w of
           (Some r, w1) \<Rightarrow> (Inr (Some r), w1)
         | (None, w1) \<Rightarrow> find_stored cls k w1)
      else find_stored cls k w)"

text \<open>
  \<open>Entity.load(key, from_cache, default)\<close>: an entity found is entered in the
  cache under \<open>key\<close> when the cache has no such entry, and returned; otherwise the
  default is raised or returned.
\<close>

definition load :: "entity_class \<Rightarrow> pyval \<Rightarrow> bool \<Rightarrow> default_arg \<Rightarrow> world \<Rightarrow> loaded outcome" where
  "load cls k from_cache dflt w =
     andthen (load_find cls k from_cache w)
       (\<lambda>found w1.
          case found of
            Some r \<Rightarrow>
              (Inr (Found r),
               (case map_of (caches w1) (get_key_name cls) of
                  Some cache \<Rightarrow>
                    if \<not> lru_contains cache k then
                      w1\<lparr>caches := AList.update (get_key_name cls) (lru_set cache k r) (caches w1)\<rparr>
                    else w1
                | None \<Rightarrow> w1))
          | None \<Rightarrow>
              (case dflt of
                 DefaultError err \<Rightarrow> (Inl err, w1)
               | DefaultValue v \<Rightarrow> (Inr (Default v), w1)))"

subsection \<open>\<open>Entity.find\<close>\<close>

text \<open>
  \<open>getattr(entity, name)\<close> for the names a criterion can use here: the
  properties \<open>uid\<close> and \<open>key\<close> and the registered attributes; another name raises
  \<open>AttributeError\<close>. The list \<open>matches\<close> of the cache loop.
\<close>

definition entity_getattr :: "entity_class \<Rightarrow> entity \<Rightarrow> string \<Rightarrow> error + pyval" where
  "entity_getattr cls entity name =
     (if name = ''uid'' then Inr (uid entity)
      else if name = ''key'' then Inr (key cls entity)
      else if map_of (attrs (base_blob_class cls)) name \<noteq> None
        then Inr (get_attr_val (base_blob entity) name)
      else Inl AttributeError)"

fun entity_matches :: "entity_class \<Rightarrow> entity \<Rightarrow> (string \<times> pyval) list \<Rightarrow> error + bool list" where
  "entity_matches cls entity [] = Inr []"
| "entity_matches cls entity ((attr, value) # pairs) =
     (case entity_getattr cls entity attr of
        Inl err \<Rightarrow> Inl err
      | Inr v \<Rightarrow>
          (case entity_matches cls entity pairs of
             Inl err \<Rightarrow> Inl err
           | Inr ms \<Rightarrow> Inr ((v = value) # ms)))"

text \<open>
  The list \<open>matches\<close> of the store loop: \<open>data.get(_attr) == _value\<close>, where a
  missing entry reads as \<open>None\<close>.
\<close>

definition data_matches :: "pydict \<Rightarrow> (string \<times> pyval) list \<Rightarrow> bool list" where
  "data_matches d pairs =
     map (\<lambda>p. (case map_of d (fst p) of None \<Rightarrow> DVal PNone | Some x \<Rightarrow> x) = DVal (snd p)) pairs"

text \<open>The policies \<open>all\<close> and \<open>any\<close> on a list of booleans.\<close>

definition py_all :: "bool list \<Rightarrow> bool" where
  "py_all ms = (False \<notin> set ms)"

definition py_any :: "bool list \<Rightarrow> bool" where
  "py_any ms = (True \<in> set ms)"

text \<open>\<open>found.add(entity)\<close> and \<open>checked_keys.add(key)\<close> on sets kept as lists.\<close>

definition set_add :: "'a \<Rightarrow> 'a list \<Rightarrow> 'a list" where
  "set_add x xs = (if x \<in> set xs then xs else xs @ [x])"

text \<open>
  The loop over \<open>cls._instances.values()\<close>. It returns \<open>found\<close> and
  \<open>checked_keys\<close>; the \<open>break\<close> leaves before the key is added.
\<close>

fun scan_instances ::
  "entity_class \<Rightarrow> (string \<times> pyval) list \<Rightarrow> (bool list \<Rightarrow> bool) \<Rightarrow> nat \<Rightarrow> world \<Rightarrow>
   (pyval \<times> nat) list \<Rightarrow> nat list \<Rightarrow> pyval list \<Rightarrow> error + nat list \<times> pyval list" where
  "scan_instances cls pairs match n w [] found checked = Inr (found, checked)"
| "scan_instances cls pairs match n w ((u, r) # rest) found checked =
     (case heap w r of
        None \<Rightarrow> scan_instances cls pairs match n w rest found checked
      | Some entity \<Rightarrow>
          (case entity_matches cls entity pairs of
             Inl err \<Rightarrow> Inl err
           | Inr ms \<Rightarrow>
               if match ms then
                 (if n \<noteq> 0 \<and> n \<le> length (set_add r found) then Inr (set_add r found, checked)
                  else scan_instances cls pairs match n w rest (set_add r found)
                         (set_add (key cls entity) checked))
               else scan_instances cls pairs match n w rest found (set_add (key cls entity) checked)))"

text \<open>
  The loop over \<open>cls._store.keys()\<close>. A key already checked is skipped; a key
  whose \<open>get\<close> raises \<open>KeyError\<close> has no data; a match is built with \<open>cls(data)\<close>
  and its dirty flag cleared.
\<close>

fun scan_store ::
  "entity_class \<Rightarrow> (string \<times> pyval) list \<Rightarrow> (bool list \<Rightarrow> bool) \<Rightarrow> nat \<Rightarrow> store \<Rightarrow>
   pyval list \<Rightarrow> pyval list \<Rightarrow> nat list \<Rightarrow> world \<Rightarrow> nat list outcome" where
  "scan_store cls pairs match n s [] checked found w = (Inr found, w)"
| "scan_store cls pairs match n s (k # ks) checked found w =
     (if k \<in> set checked then scan_store cls pairs match n s ks checked found w
      else
        (case store_get s k of
           Inl err \<Rightarrow> scan_store cls pairs match n s ks checked found w
         | Inr data \<Rightarrow>
             if data \<noteq> [] \<and> match (data_matches data pairs) then
               (case init_entity cls (Some data) False True w of
                  (Inl err, w1) \<Rightarrow> (Inl err, w1)
                | (Inr r, w1) \<Rightarrow>
                    if n \<noteq> 0 \<and> n \<le> length (set_add r found)
                    then (Inr (set_add r found), update_entity r (\<lambda>e. e\<lparr>is_dirty := False\<rparr>) w1)
                    else scan_store cls pairs match n s ks checked (set_add r found)
                           (update_entity r (\<lambda>e. e\<lparr>is_dirty := False\<rparr>) w1))
             else scan_store cls pairs match n s ks checked found w))"

text \<open>
  \<open>Entity.find(*attr_value_pairs, cache, store, match, n)\<close>, with the pairs already
  split. Without a store, \<open>cls._store.keys()\<close> raises \<open>AttributeError\<close>. With
  \<open>n == 1\<close> the result is \<open>found.pop()\<close> of a set of at most one entity, or
  \<open>None\<close>; otherwise it is \<open>list(found)\<close>.
\<close>

datatype find_result = Single "nat option" | Many "nat list"

definition find ::
  "entity_class \<Rightarrow> (string \<times> pyval) list \<Rightarrow> bool \<Rightarrow> bool \<Rightarrow> (bool list \<Rightarrow> bool) \<Rightarrow> nat \<Rightarrow> world \<Rightarrow>
   find_result outcome" where
  "find cls pairs cache st match n w =
     (case (if cache then scan_instances cls pairs match n w (instances w) [] [] else Inr ([], [])) of
        Inl err \<Rightarrow> (Inl err, w)
      | Inr (found, checked) \<Rightarrow>
          andthen
            (if st \<and> (n = 0 \<or> length found < n) then
               (case store w of
                  None \<Rightarrow> (Inl AttributeError, w)
                | Some s \<Rightarrow> scan_store cls pairs match n s (store_keys s) checked found w)
             else (Inr found, w))
            (\<lambda>found' w1.
               (Inr (if n = 1 then Single (case found' of [] \<Rightarrow> None | r # rs \<Rightarrow> Some r)
                     else Many found'), w1)))"

section \<open>Registration and schema composition\<close>

subsection \<open>\<open>EntityManager.register\<close>\<close>

text \<open>
  What \<open>register\<close> is given: something that is not a class, a class that is not a
  subclass of \<open>Entity\<close>, or an entity class with its \<open>__name__\<close> and \<open>_uid_code\<close>.
  The manager's \<open>_entities\<close> dict maps class names to the registered classes,
  of which the \<open>_uid_code\<close> is kept.
\<close>

datatype registrant = NotAClass | OtherClass string | EntitySubclass string string

type_synonym entity_manager = "(string \<times> string) list"

fun register :: "entity_manager \<Rightarrow> registrant \<Rightarrow> error + entity_manager" where
  "register entities NotAClass = Inl TypeError"
| "register entities (OtherClass name) = Inl TypeError"
| "register entities (EntitySubclass name code) =
     (if map_of entities name \<noteq> None then Inl AlreadyExists
      else if code \<in> set (map snd entities) then Inl KeyError
      else Inr (AList.update name code entities))"

subsection \<open>Classes, \<open>register_attr\<close> and \<open>register_blob\<close>\<close>

text \<open>
  A class object with its \<open>__bases__\<close>. The state of every class is kept by
  name: the names set on the class itself (methods, properties), and the \<open>_attrs\<close>
  and \<open>_blobs\<close> dicts of its \<open>_base_blob\<close> class, which \<open>_EntityMeta.__init__\<close>
  creates empty for every entity class.
\<close>

datatype hierarchy = Class (class_name: string) (class_bases: "hierarchy list")

record class_state =
  cs_names :: "string list"
  cs_attrs :: "(string \<times> attribute) list"
  cs_blobs :: "(string \<times> blob_class) list"

type_synonym class_table = "string \<Rightarrow> class_state"

text \<open>\<open>issubclass(cls, Entity)\<close> and \<open>hasattr(cls, name)\<close> along the bases.\<close>

fun is_entity_class :: "hierarchy \<Rightarrow> bool" where
  "is_entity_class (Class name bases) = (name = ''Entity'' \<or> True \<in> set (map is_entity_class bases))"

fun hasattr :: "class_table \<Rightarrow> hierarchy \<Rightarrow> string \<Rightarrow> bool" where
  "hasattr table (Class c bases) name =
     (name \<in> set (cs_names (table c)) \<or> True \<in> set (map (\<lambda>b. hasattr table b name) bases))"

text \<open>
  The decorated object of \<open>register_attr(name)\<close>: an \<open>Attribute\<close> subclass or
  anything else; likewise for \<open>register_blob(name)\<close>. \<open>_EntityMeta.register_attr\<close>
  raises \<open>AlreadyExists\<close> when the class has an attribute of that name, then
  \<open>TypeError\<close> for a decorated object that is no \<open>Attribute\<close> subclass; otherwise
  it enters the descriptor in \<open>_base_blob._attrs\<close> and sets the property on the
  class.
\<close>

datatype attr_decorated = NotAttribute | AttributeSubclass attribute

datatype blob_decorated = NotDataBlob | DataBlobSubclass blob_class

definition register_attr ::
  "hierarchy \<Rightarrow> string \<Rightarrow> attr_decorated \<Rightarrow> class_table \<Rightarrow> error + class_table" where
  "register_attr cls name decorated table =
     (if hasattr table cls name then Inl AlreadyExists
      else case decorated of
             NotAttribute \<Rightarrow> Inl TypeError
           | AttributeSubclass attr_class \<Rightarrow>
               Inr (table(class_name cls :=
                      (table (class_name cls))
                        \<lparr>cs_names := cs_names (table (class_name cls)) @ [name],
                         cs_attrs := AList.update name attr_class (cs_attrs (table (class_name cls)))\<rparr>)))"

definition register_blob ::
  "hierarchy \<Rightarrow> string \<Rightarrow> blob_decorated \<Rightarrow> class_table \<Rightarrow> error + class_table" where
  "register_blob cls name decorated table =
     (if hasattr table cls name then Inl AlreadyExists
      else case decorated of
             NotDataBlob \<Rightarrow> Inl TypeError
           | DataBlobSubclass blob_class \<Rightarrow>
               Inr (table(class_name cls :=
                      (table (class_name cls))
                        \<lparr>cs_names := cs_names (table (class_name cls)) @ [name],
                         cs_blobs := AList.update name blob_class (cs_blobs (table (class_name cls)))\<rparr>)))"

subsection \<open>\<open>_build_base_blob\<close> and \<open>DataBlob._update\<close>\<close>

text \<open>
  A base blob instance while it is built: the name of its class (its \<open>_attrs\<close> is
  the dict of that class, shared by all its instances), and its own
  \<open>_attr_values\<close> and \<open>_blobs\<close> (\<open>DataBlob.__init__\<close> copies \<open>_blobs\<close> into the
  instance and fills it with sub-blob instances).
\<close>

record base_blob_instance =
  bi_class :: string
  bi_attr_values :: "(string \<times> pyval) list"
  bi_blobs :: "(string \<times> blob) list"

definition instantiate :: "class_table \<Rightarrow> string \<Rightarrow> base_blob_instance" where
  "instantiate table c =
     \<lparr>bi_class = c,
      bi_attr_values = map (\<lambda>ka. (fst ka, a_default (snd ka))) (cs_attrs (table c)),
      bi_blobs = map (\<lambda>kb. (fst kb, new_blob (snd kb))) (cs_blobs (table c))\<rparr>"

text \<open>\<open>dict.update\<close>: the entries of the second dict are written into the first.\<close>

definition dict_update :: "('k \<times> 'v) list \<Rightarrow> ('k \<times> 'v) list \<Rightarrow> ('k \<times> 'v) list" where
  "dict_update d other = fold (\<lambda>kv. AList.update (fst kv) (snd kv)) other d"

text \<open>
  \<open>self._update(blob)\<close>: \<open>self._blobs\<close> and \<open>self._attr_values\<close> are the
  instance's, \<open>self._attrs\<close> is the dict of the instance's class.
\<close>

definition update_blob ::
  "base_blob_instance \<Rightarrow> base_blob_instance \<Rightarrow> class_table \<Rightarrow> base_blob_instance \<times> class_table" where
  "update_blob self other table =
     (self\<lparr>bi_blobs := dict_update (bi_blobs self) (bi_blobs other),
           bi_attr_values := dict_update (bi_attr_values self) (bi_attr_values other)\<rparr>,
      table(bi_class self :=
        (table (bi_class self))
          \<lparr>cs_attrs := dict_update (cs_attrs (table (bi_class self))) (cs_attrs (table (bi_class other)))\<rparr>))"

text \<open>
  The state of the recursion of \<open>_build_base_blob\<close>: the default arguments
  \<open>blob\<close> and \<open>checked\<close>, shared by all calls of one construction, and the
  class table. The bases are visited first, then the class itself unless it is
  not an entity class or is in \<open>checked\<close>.
\<close>

record build_state =
  bs_blob :: base_blob_instance
  bs_checked :: "string list"
  bs_table :: class_table

fun build_base_blob :: "hierarchy \<Rightarrow> build_state \<Rightarrow> build_state" where
  "build_base_blob (Class c bases) st =
     (let st1 = fold build_base_blob bases st in
      if is_entity_class (Class c bases) \<and> c \<notin> set (bs_checked st1) then
        (let (blob', table') = update_blob (bs_blob st1) (instantiate (bs_table st1) c) (bs_table st1)
         in \<lparr>bs_blob = blob', bs_checked = bs_checked st1 @ [c], bs_table = table'\<rparr>)
      else st1)"

text \<open>
  The part of \<open>Entity.__init__\<close> that builds \<open>self._base_blob\<close> for an instance of
  \<open>cls\<close>: the default argument \<open>blob\<close> is a fresh instance of the class's own base
  blob class.
\<close>

definition init_base_blob :: "hierarchy \<Rightarrow> class_table \<Rightarrow> build_state" where
  "init_base_blob cls table =
     build_base_blob cls
       \<lparr>bs_blob = instantiate table (class_name cls), bs_checked = [], bs_table = table\<rparr>"

subsection \<open>Classes of the sources, and a small example\<close>

text \<open>
  \<open>_EntityMeta.__init__\<close> gives every entity class an empty \<open>_instances\<close> table
  and a \<open>_caches\<close> dict in which \<open>register_cache(cls.get_key_name())\<close> creates
  the cache for the key name, of the default size 512. The state of a class right
  after its definition, with its store (or \<open>None\<close>), the counter and the clock:
\<close>

definition register_cache :: "string \<Rightarrow> nat \<Rightarrow> (string \<times> lrucache) list \<Rightarrow> error + (string \<times> lrucache) list" where
  "register_cache k sz cs =
     (if map_of cs k \<noteq> None then Inl KeyError
      else Inr (AList.update k \<lparr>capacity = sz, entries = []\<rparr> cs))"

definition class_defined :: "entity_class \<Rightarrow> store option \<Rightarrow> rat \<Rightarrow> rat \<Rightarrow> world" where
  "class_defined cls st timecode now =
     \<lparr>heap = Map.empty, next_ref = 0, instances = [],
      caches = (case register_cache (get_key_name cls) 512 [] of Inl err \<Rightarrow> [] | Inr cs \<Rightarrow> cs),
      store = st, uid_timecode = timecode, time = now\<rparr>"

text \<open>
  \<open>EntityVersion\<close>, registered on \<open>Entity\<close> as \<open>version\<close>: default 1, and
  \<open>_validate\<close> raises \<open>TypeError\<close> unless the value is an \<open>int\<close>.
\<close>

definition EntityVersion :: attribute where
  "EntityVersion =
     Attribute\<lparr>a_default := PInt 1,
               a_validate := (\<lambda>new_value entity w.
                  case new_value of PInt i \<Rightarrow> (Inr new_value, w) | other \<Rightarrow> (Inl TypeError, w))\<rparr>"

text \<open>
  An entity class stored under its \<open>name\<close> attribute (a plain \<open>Attribute\<close>), with
  the inherited \<open>version\<close>; and the same class stored under its identifier, as
  \<open>Entity\<close> is by default.
\<close>

definition Named :: entity_class where
  "Named =
     \<lparr>uid_code = ''N'', store_key = KeyName ''name'',
      base_blob_class = BlobClass [(''version'', EntityVersion), (''name'', Attribute)] []\<rparr>"


text \<open>
  States of \<open>Named\<close> with an empty store, the clock at 5: right after the class
  is defined; after \<open>e = Named()\<close>; after \<open>e.name = "A"\<close>; after \<open>e.save()\<close>.
\<close>

definition named_entity :: "pyval \<Rightarrow> (string \<times> pyval) list \<Rightarrow> bool \<Rightarrow> entity" where
  "named_entity nm ts d =
     \<lparr>uid = PStr ''N-cw4'', is_dirty = d, savable = True, active = False, flags = [], tags = ts,
      base_blob = Blob [(''version'', PInt 1), (''name'', nm)] []\<rparr>"

definition named_world ::
  "entity \<Rightarrow> (pyval \<times> nat) list \<Rightarrow> store \<Rightarrow> world" where
  "named_world e cached st =
     \<lparr>heap = [0 \<mapsto> e], next_ref = 1, instances = [(PStr ''N-cw4'', 0)],
      caches = [(''name'', \<lparr>capacity = 512, entries = cached\<rparr>)],
      store = Some st, uid_timecode = 50000, time = 5\<rparr>"

definition named_w0 :: world where
  "named_w0 = class_defined Named (Some []) 0 5"

definition named_w1 :: world where
  "named_w1 = named_world (named_entity Unset [] False) [(Unset, 0)] []"

definition named_w2 :: world where
  "named_w2 = named_world (named_entity (PStr ''A'') [(''_old_key'', Unset)] True) [(PStr ''A'', 0)] []"

definition named_data :: "pyval \<Rightarrow> pydict" where
  "named_data nm =
     [(''version'', DVal (PInt 1)), (''name'', DVal nm), (''uid'', DVal (PStr ''N-cw4'')),
      (''flags'', DTuple []), (''tags'', DDict [])]"

definition named_w3 :: world where
  "named_w3 = named_world (named_entity (PStr ''A'') [] False) [(PStr ''A'', 0)]
                 [(PStr ''A'', named_data (PStr ''A''))]"






text \<open>
  A small hierarchy: \<open>class Base(Entity)\<close> and \<open>class Derived(Base)\<close>, with
  \<open>Entity\<close> on the mixins as in \<open>entities.py\<close>. \<open>Entity\<close> has its \<open>version\<close>
  attribute. Two descriptors for a field \<open>foo\<close> with different defaults, and two
  blob classes.
\<close>

definition Entity_h :: hierarchy where
  "Entity_h = Class ''Entity'' [Class ''HasFlags'' [Class ''object'' []],
                Class ''HasTags'' [Class ''object'' []], Class ''HasWeaks'' [Class ''object'' []]]"

definition Base_h :: hierarchy where
  "Base_h = Class ''Base'' [Entity_h]"

definition Derived_h :: hierarchy where
  "Derived_h = Class ''Derived'' [Base_h]"

definition table0 :: class_table where
  "table0 =
     (\<lambda>c. \<lparr>cs_names = [], cs_attrs = [], cs_blobs = []\<rparr>)
       (''Entity'' := \<lparr>cs_names = [''uid'', ''key'', ''version''],
                       cs_attrs = [(''version'', EntityVersion)], cs_blobs = []\<rparr>)"

definition BaseFoo :: attribute where
  "BaseFoo = Attribute\<lparr>a_default := PStr ''base''\<rparr>"

definition DerivedFoo :: attribute where
  "DerivedFoo = Attribute\<lparr>a_default := PStr ''derived''\<rparr>"

definition BaseStats :: blob_class where
  "BaseStats = BlobClass [(''hp'', Attribute\<lparr>a_default := PInt 1\<rparr>)] []"

definition DerivedStats :: blob_class where
  "DerivedStats = BlobClass [(''hp'', Attribute\<lparr>a_default := PInt 2\<rparr>)] []"

text \<open>
  \<open>Derived\<close> registers \<open>foo\<close> and the blob \<open>stats\<close> first, \<open>Base\<close> registers the same
  names afterwards (\<open>hasattr(Base, name)\<close> does not see what a subclass has).
\<close>

definition table_foo :: class_table where
  "table_foo =
     table0
       (''Derived'' := \<lparr>cs_names = [''foo'', ''stats''], cs_attrs = [(''foo'', DerivedFoo)],
                         cs_blobs = [(''stats'', DerivedStats)]\<rparr>,
        ''Base'' := \<lparr>cs_names = [''foo'', ''stats''], cs_attrs = [(''foo'', BaseFoo)],
                      cs_blobs = [(''stats'', BaseStats)]\<rparr>)"

section \<open>Auxiliary notions for the proofs\<close>

text \<open>
  What \<open>deserialize\<close> of the blob at \<open>path\<close> does to the base blob of the entity,
  without the bookkeeping of \<open>_set_attr_val\<close>; \<open>None\<close> where \<open>blob_deserialize\<close>
  raises.
\<close>

fun deserialized :: "blob_class \<Rightarrow> string list \<Rightarrow> pydict \<Rightarrow> blob \<Rightarrow> blob option" where
  "deserialized whole path [] b = Some b"
| "deserialized whole path ((k, value) # rest) b =
     (case blob_class_at whole path of
        None \<Rightarrow> None
      | Some bc \<Rightarrow>
          (case map_of (attrs bc) k of
             Some attr \<Rightarrow>
               (case value of
                  DVal v \<Rightarrow>
                    deserialized whole path rest
                      (blob_assign b path k (if v \<noteq> Unset then a_deserialize attr v else v))
                | DTuple vs \<Rightarrow> None
                | DDict d \<Rightarrow> None)
           | None \<Rightarrow>
               (if map_of (blob_classes bc) k \<noteq> None then
                  (case value of
                     DDict d \<Rightarrow>
                       (case deserialized whole (path @ [k]) d b of
                          None \<Rightarrow> None
                        | Some b' \<Rightarrow> deserialized whole path rest b')
                   | DVal v \<Rightarrow> None
                   | DTuple vs \<Rightarrow> None)
                else deserialized whole path rest b)))"

text \<open>
  An operation on the entity \<open>r\<close> that leaves the store, the instance table, the
  counter, the clock and every other object alone.
\<close>

definition only_entity :: "nat \<Rightarrow> world \<Rightarrow> world \<Rightarrow> bool" where
  "only_entity r w w' =
     (store w' = store w \<and> instances w' = instances w \<and> next_ref w' = next_ref w \<and>
      uid_timecode w' = uid_timecode w \<and> time w' = time w \<and>
      (\<forall>r'. r' \<noteq> r \<longrightarrow> heap w' r' = heap w r'))"

text \<open>Two entity values that differ at most in tags, dirty flag and base blob.\<close>

definition same_identity :: "entity \<Rightarrow> entity \<Rightarrow> bool" where
  "same_identity e e' =
     (uid e' = uid e \<and> savable e' = savable e \<and> active e' = active e \<and> flags e' = flags e)"

text \<open>Replacing the blob at a path.\<close>

fun blob_put :: "blob \<Rightarrow> string list \<Rightarrow> blob \<Rightarrow> blob" where
  "blob_put b [] new = new"
| "blob_put b (p # ps) new =
     Blob (attr_values b) (AList.map_entry p (\<lambda>sb. blob_put sb ps new) (blobs b))"

text \<open>
  \<open>deserialize\<close> as a function of the blob it is called on and that blob's class.
\<close>

fun load_into :: "blob_class \<Rightarrow> pydict \<Rightarrow> blob \<Rightarrow> blob option" where
  "load_into bc [] b = Some b"
| "load_into bc ((k, value) # rest) b =
     (case map_of (attrs bc) k of
        Some attr \<Rightarrow>
          (case value of
             DVal v \<Rightarrow>
               load_into bc rest
                 (Blob (AList.update k (if v \<noteq> Unset then a_deserialize attr v else v) (attr_values b))
                    (blobs b))
           | DTuple vs \<Rightarrow> None
           | DDict d \<Rightarrow> None)
      | None \<Rightarrow>
          (case map_of (blob_classes bc) k of
             Some bc' \<Rightarrow>
               (case value of
                  DDict d \<Rightarrow>
                    (case map_of (blobs b) k of
                       None \<Rightarrow> None
                     | Some sb \<Rightarrow>
                         (case load_into bc' d sb of
                            None \<Rightarrow> None
                          | Some sb' \<Rightarrow>
                              load_into bc rest
                                (Blob (attr_values b) (AList.map_entry k (\<lambda>x. sb') (blobs b)))))
                | DVal v \<Rightarrow> None
                | DTuple vs \<Rightarrow> None)
           | None \<Rightarrow> load_into bc rest b))"

text \<open>
  A blob is an instance of a blob class when it has the class's attribute names
  and sub-blob names, in the class's order, and its sub-blobs are instances of the
  sub-blob classes: what \<open>DataBlob.__init__\<close> builds and field writes keep.
\<close>

fun conforms :: "blob_class \<Rightarrow> blob \<Rightarrow> bool"
  and conforms_blobs :: "(string \<times> blob_class) list \<Rightarrow> (string \<times> blob) list \<Rightarrow> bool" where
  "conforms (BlobClass as bcs) (Blob vs bs) = (map fst vs = map fst as \<and> conforms_blobs bcs bs)"
| "conforms_blobs [] bs = (bs = [])"
| "conforms_blobs (kc # bcs) [] = False"
| "conforms_blobs (kc # bcs) (kb # bs) =
     (fst kb = fst kc \<and> conforms (snd kc) (snd kb) \<and> conforms_blobs bcs bs)"

text \<open>
  A blob class whose names are those of a Python dict each and do not collide
  between attributes and sub-blobs (registration refuses a name already taken).
\<close>

fun wf_class :: "blob_class \<Rightarrow> bool" where
  "wf_class (BlobClass as bcs) =
     (distinct (map fst as @ map fst bcs) \<and> list_all (\<lambda>kc. wf_class (snd kc)) bcs)"

text \<open>
  The descriptors' hooks convert to a storable value and back, on the values a
  blob holds: \<open>_serialize\<close> does not produce the sentinel, and \<open>_deserialize\<close>
  undoes it.
\<close>

definition hook_ok :: "attribute \<Rightarrow> pyval \<Rightarrow> bool" where
  "hook_ok attr v =
     (v = Unset \<or> (a_serialize attr v \<noteq> Unset \<and> a_deserialize attr (a_serialize attr v) = v))"

fun hooks_ok :: "blob_class \<Rightarrow> blob \<Rightarrow> bool"
  and hooks_ok_blobs :: "(string \<times> blob_class) list \<Rightarrow> (string \<times> blob) list \<Rightarrow> bool" where
  "hooks_ok (BlobClass as bcs) b =
     (list_all (\<lambda>ka. hook_ok (snd ka) (get_attr_val b (fst ka))) as \<and> hooks_ok_blobs bcs (blobs b))"
| "hooks_ok_blobs [] bs = True"
| "hooks_ok_blobs (kc # bcs) [] = True"
| "hooks_ok_blobs (kc # bcs) (kb # bs) = (hooks_ok (snd kc) (snd kb) \<and> hooks_ok_blobs bcs bs)"

text \<open>
  The same blob class with other \<open>_serialize\<close> and \<open>_deserialize\<close> hooks: they
  answer \<open>u\<close> on the sentinel and agree with the given hooks everywhere else.
\<close>

definition shield_attr :: "pyval \<Rightarrow> attribute \<Rightarrow> attribute" where
  "shield_attr u attr =
     attr\<lparr>a_serialize := (\<lambda>v. if v = Unset then u else a_serialize attr v),
          a_deserialize := (\<lambda>v. if v = Unset then u else a_deserialize attr v)\<rparr>"

fun shield :: "pyval \<Rightarrow> blob_class \<Rightarrow> blob_class" where
  "shield u (BlobClass as bcs) =
     BlobClass (map (\<lambda>ka. (fst ka, shield_attr u (snd ka))) as)
               (map (\<lambda>kc. (fst kc, shield u (snd kc))) bcs)"

text \<open>Putting given sub-blobs in the place of those of the same names.\<close>

definition replace_blobs :: "(string \<times> blob) list \<Rightarrow> (string \<times> blob) list \<Rightarrow> (string \<times> blob) list" where
  "replace_blobs cur items = fold (\<lambda>kb. AList.map_entry (fst kb) (\<lambda>x. snd kb)) items cur"

text \<open>The value \<open>serialize\<close> stores for a field value.\<close>

definition ser_val :: "attribute \<Rightarrow> pyval \<Rightarrow> pyval" where
  "ser_val attr v = (if v \<noteq> Unset then a_serialize attr v else v)"

section \<open>Properties of identity generation\<close>

lemma make_uid_counter:
  "snd (make_uid code t c) =
     (if t * uid_timecode_multiplier > c then t * uid_timecode_multiplier else c + 1)"
  by (simp add: make_uid_def Let_def)

lemma make_uid_gt: "c < snd (make_uid code t c)"
  by (simp add: make_uid_counter)

lemma make_uids_gt: "p \<in> set (make_uids c reqs) \<Longrightarrow> c < snd p"
proof (induction reqs arbitrary: c)
  case Nil
  then show ?case by simp
next
  case (Cons r reqs)
  obtain code t where r: "r = (code, t)" by (cases r)
  obtain uid c' where m: "make_uid code t c = (uid, c')" by (cases "make_uid code t c")
  have lt: "c < c'" using make_uid_gt [of c code t] m by simp
  from Cons.prems r m have "p = (uid, c') \<or> p \<in> set (make_uids c' reqs)" by simp
  then show ?case
  proof
    assume "p = (uid, c')"
    with lt show ?thesis by simp
  next
    assume "p \<in> set (make_uids c' reqs)"
    then have "c' < snd p" by (rule Cons.IH)
    with lt show ?thesis by simp
  qed
qed

lemma make_uids_sorted: "sorted_wrt (<) (map snd (make_uids c reqs))"
proof (induction reqs arbitrary: c)
  case Nil
  then show ?case by simp
next
  case (Cons r reqs)
  obtain code t where r: "r = (code, t)" by (cases r)
  obtain uid c' where m: "make_uid code t c = (uid, c')" by (cases "make_uid code t c")
  show ?case using Cons.IH [of c'] make_uids_gt [of _ c' reqs] by (auto simp add: r m)
qed

lemma floor_rat_numeral: "\<lfloor>(numeral a :: rat) / numeral b\<rfloor> = numeral a div numeral b"
  using floor_divide_of_int_eq [of "numeral a" "numeral b", where ?'a = rat] by simp

text \<open>The rendering of the model gives the identifier of the docstring of \<open>make_uid\<close>.\<close>

lemma docstring_timecode:
  "int_to_base_n 14302659986633 uid_timecode_charset = ''6jQZ4zvH''"
  by (simp add: int_to_base_n_def base_n_digits.simps uid_timecode_charset_def)

lemma rendered_unit:
  "int_to_base_n (143026599866331 / 10) uid_timecode_charset = ''6jQZ4zvH''"
  "int_to_base_n (143026599866339 / 10) uid_timecode_charset = ''6jQZ4zvH''"
  "int_to_base_n (143026599866337 / 10) uid_timecode_charset = ''6jQZ4zvH''"
  "int_to_base_n (143026599866311 / 10) uid_timecode_charset = ''6jQZ4zvG''"
  "int_to_base_n (143026599866321 / 10) uid_timecode_charset = ''6jQZ4zvh''"
  by (simp_all add: int_to_base_n_def floor_rat_numeral base_n_digits.simps uid_timecode_charset_def)

text \<open>
  Claim C2. In every sequence of calls of \<open>make_uid\<close>, whatever class makes each
  call and whatever the clock reads at each call, the counter values are strictly
  increasing in call order: each call adopts the clock value times the multiplier
  when that exceeds the stored counter and otherwise adds one to the stored
  counter. The identifiers, however, can collide. The counter is compared and
  stored with its fraction, while the identifier shows its integer part only. Two
  calls whose clock readings, \<open>1430265998.66331\<close> and \<open>1430265998.66339\<close>,
  fall into the same ten-thousandth of a second store the increasing counters
  \<open>14302659986633.1\<close> and \<open>14302659986633.9\<close>, and both return the identifier
  \<^verbatim>\<open>E-6jQZ4zvH\<close>. The same happens after a burst: once the counter has run ahead
  of the clock by increments of one (here from \<open>14302659986630.1\<close>, with three
  calls while the clock reads at most \<open>1430265998.6632\<close>), a clock reading that
  exceeds it within the same unit (\<open>1430265998.66337\<close>) repeats the last
  identifier.
\<close>

theorem make_uid_repeats_identifier_within_clock_unit:
  "sorted_wrt (<) (map snd (make_uids c reqs)) \<and>
   make_uids 0 [(''E'', 143026599866331 / 100000), (''E'', 143026599866339 / 100000)] =
     [(''E-6jQZ4zvH'', 143026599866331 / 10), (''E-6jQZ4zvH'', 143026599866339 / 10)] \<and>
   make_uids (143026599866301 / 10) [(''E'', 1430265998), (''E'', 1430265998),
       (''E'', 14302659986632 / 10000), (''E'', 143026599866337 / 100000)] =
     [(''E-6jQZ4zvG'', 143026599866311 / 10), (''E-6jQZ4zvh'', 143026599866321 / 10),
      (''E-6jQZ4zvH'', 143026599866331 / 10), (''E-6jQZ4zvH'', 143026599866337 / 10)]"
  using make_uids_sorted [of c reqs]
  by (simp add: make_uid_def uid_timecode_multiplier_def Let_def rendered_unit)

section \<open>Properties of field writes, caches and saving\<close>

lemma key_tags_dirty [simp]:
  "key cls (e\<lparr>tags := ts\<rparr>) = key cls e" "key cls (e\<lparr>is_dirty := d\<rparr>) = key cls e"
  by (simp_all add: key_def split: store_key.splits)

lemma lru_set_lookup_same: "lru_lookup (lru_set c k v) k = Some v"
  by (simp add: lru_set_def lru_lookup_def)

lemma lru_del_lookup: "lru_lookup (lru_del c k) k = None"
  by (simp add: lru_del_def lru_lookup_def delete_conv')

lemma lru_lookup_take_None:
  "lru_lookup c k = None \<Longrightarrow> map_of (take n (entries c)) k = None"
  by (auto simp add: lru_lookup_def map_of_eq_None_iff dest!: in_set_takeD)

lemma lru_set_lookup_absent:
  "k' \<noteq> k \<Longrightarrow> lru_lookup c k' = None \<Longrightarrow> lru_lookup (lru_set c k v) k' = None"
  using lru_lookup_take_None [of c k' "capacity c - 1"]
  by (simp add: lru_set_def lru_lookup_def delete_conv')

lemma lru_contains_lookup: "lru_contains c k \<longleftrightarrow> lru_lookup c k \<noteq> None"
  by (simp add: lru_contains_def lru_lookup_def)

lemma relocate_cache:
  assumes "map_of (caches w) (get_key_name cls) = Some cache" "new_key \<noteq> old_key"
  shows "\<exists>cache'. map_of (caches (relocate cls r old_key new_key w)) (get_key_name cls) = Some cache' \<and>
           lru_lookup cache' old_key = None \<and> lru_lookup cache' new_key = Some r"
proof -
  let ?c1 = "if lru_contains cache old_key then lru_del cache old_key else cache"
  have "lru_lookup ?c1 old_key = None"
    by (simp add: lru_del_lookup lru_contains_lookup)
  then have "lru_lookup (lru_set ?c1 new_key r) old_key = None"
    using assms(2) by (simp add: lru_set_lookup_absent)
  then show ?thesis
    using assms(1) by (simp add: relocate_def Let_def update_conv' lru_set_lookup_same)
qed

lemma relocate_frame [simp]:
  "heap (relocate cls r old_key new_key w) = heap w"
  "store (relocate cls r old_key new_key w) = store w"
  "instances (relocate cls r old_key new_key w) = instances w"
  "uid_timecode (relocate cls r old_key new_key w) = uid_timecode w"
  "next_ref (relocate cls r old_key new_key w) = next_ref w"
  "time (relocate cls r old_key new_key w) = time w"
  by (simp_all add: relocate_def Let_def split: option.splits)

text \<open>What a committed write leaves behind.\<close>

lemma set_attr_val_commit:
  assumes "heap w r = Some entity"
    and "blob_class_at (base_blob_class cls) path = Some bc"
    and "map_of (attrs bc) name = Some attr"
    and "(if value \<noteq> Unset \<and> validate then a_validate attr value r w else (Inr value, w)) =
           (Inr validated, w1)"
  shows "set_attr_val cls r path name value validate raw w =
           commit_attr_val cls r path name
             (if value \<noteq> Unset \<and> \<not> raw then a_finalize attr validated r w1 else validated) w1"
  using assms by (simp add: set_attr_val_def andthen_def)

lemma commit_attr_val_committed:
  assumes "heap w r = Some entity"
  shows "commit_attr_val cls r path name value' w =
    (Inr (),
     if key cls (entity\<lparr>base_blob := blob_assign (base_blob entity) path name value'\<rparr>) \<noteq> key cls entity
     then relocate cls r (key cls entity)
              (key cls (entity\<lparr>base_blob := blob_assign (base_blob entity) path name value'\<rparr>))
              (w\<lparr>heap := (heap w)(r \<mapsto> entity\<lparr>base_blob := blob_assign (base_blob entity) path name value',
                    tags := AList.update ''_old_key'' (key cls entity) (tags entity), is_dirty := True\<rparr>)\<rparr>)
     else w\<lparr>heap := (heap w)(r \<mapsto> entity\<lparr>base_blob := blob_assign (base_blob entity) path name value', is_dirty := True\<rparr>)\<rparr>)"
proof -
  have k: "key cls (e\<lparr>tags := ts, is_dirty := d\<rparr>) = key cls e" for e ts d
    by (simp add: key_def split: store_key.splits)
  show ?thesis
    using assms by (simp add: commit_attr_val_def Let_def k)
qed

lemma entity_serialize_dirty [simp]:
  "entity_serialize cls (e\<lparr>is_dirty := d\<rparr>) = entity_serialize cls e"
  by (simp add: entity_serialize_def split: sum.splits)

lemma store_has_delete [simp]: "store_has (store_delete s k) k = False"
  by (simp add: store_has_def store_delete_def delete_conv')

lemma store_has_put_other: "k' \<noteq> k \<Longrightarrow> store_has (store_put s k d) k' = store_has s k'"
  by (simp add: store_has_def store_put_def update_conv')

lemma store_get_put [simp]: "store_get (store_put s k d) k = Inr d"
  by (simp add: store_get_def store_put_def update_conv')

text \<open>\<open>save\<close> of a savable entity that carries the tag.\<close>

lemma save_retires_old_key:
  assumes "heap w r = Some entity" "store w = Some s" "savable entity"
    and "map_of (tags entity) ''_old_key'' = Some old_key"
    and "key cls entity \<noteq> old_key"
  shows "\<exists>s'. store (snd (save cls r w)) = Some s' \<and> \<not> store_has s' old_key \<and>
           (\<forall>data. entity_serialize cls (entity\<lparr>tags := AList.delete ''_old_key'' (tags entity)\<rparr>) = Inr data \<longrightarrow>
              fst (save cls r w) = Inr () \<and> store_get s' (key cls entity) = Inr data)"
proof (cases "entity_serialize cls (entity\<lparr>tags := AList.delete ''_old_key'' (tags entity)\<rparr>)")
  case (Inl err)
  then show ?thesis
    using assms by (simp add: save_def)
next
  case (Inr data)
  then show ?thesis
    using assms by (simp add: save_def store_has_put_other)
qed

subsection \<open>The effect of deserialization on the entity\<close>

lemma only_entity_refl [simp]: "only_entity r w w"
  by (simp add: only_entity_def)

lemma only_entity_trans: "only_entity r w w1 \<Longrightarrow> only_entity r w1 w2 \<Longrightarrow> only_entity r w w2"
  by (simp add: only_entity_def)

lemma same_identity_refl [simp]: "same_identity e e"
  by (simp add: same_identity_def)

lemma same_identity_trans: "same_identity e e1 \<Longrightarrow> same_identity e1 e2 \<Longrightarrow> same_identity e e2"
  by (simp add: same_identity_def)

lemma only_entity_relocate [simp]: "only_entity r (relocate cls r' old new w) w' = only_entity r w w'"
  "only_entity r w (relocate cls r' old new w') = only_entity r w w'"
  by (simp_all add: only_entity_def)

text \<open>A write with \<open>validate=False, raw=True\<close>, as \<open>deserialize\<close> makes it.\<close>

lemma set_attr_val_raw:
  assumes "heap w r = Some e"
    and "blob_class_at (base_blob_class cls) path = Some bc"
    and "map_of (attrs bc) name = Some attr"
  shows "\<exists>w' e'. set_attr_val cls r path name v False True w = (Inr (), w') \<and>
           heap w' r = Some e' \<and> base_blob e' = blob_assign (base_blob e) path name v \<and>
           same_identity e e' \<and> only_entity r w w'"
  using assms
  by (simp add: set_attr_val_def commit_attr_val_def andthen_def Let_def same_identity_def)
    (simp add: only_entity_def)

lemma blob_deserialize_effect:
  assumes "heap w r = Some e"
  shows "\<exists>w' e' res. blob_deserialize cls r path data w = (res, w') \<and>
           heap w' r = Some e' \<and> same_identity e e' \<and> only_entity r w w' \<and>
           (case res of
              Inr u \<Rightarrow> deserialized (base_blob_class cls) path data (base_blob e) = Some (base_blob e')
            | Inl err \<Rightarrow> deserialized (base_blob_class cls) path data (base_blob e) = None)"
  using assms
proof (induction cls r path data w arbitrary: e rule: blob_deserialize.induct)
  case (1 cls r path w)
  then show ?case by simp
next
  case (2 cls r path k "value" rest w)
  note ent = \<open>heap w r = Some e\<close>
  show ?case
  proof (cases "blob_class_at (base_blob_class cls) path")
    case None
    then show ?thesis using ent by simp
  next
    case (Some bc)
    show ?thesis
    proof (cases "map_of (attrs bc) k")
      case attr: (Some attr)
      show ?thesis
      proof (cases "value")
        case (DVal v)
        let ?v = "if v \<noteq> Unset then a_deserialize attr v else v"
        from set_attr_val_raw [OF ent Some attr, of ?v]
        obtain w1 e1 where
          s: "set_attr_val cls r path k ?v False True w = (Inr (), w1)"
          and h1: "heap w1 r = Some e1"
          and b1: "base_blob e1 = blob_assign (base_blob e) path k ?v"
          and i1: "same_identity e e1" and f1: "only_entity r w w1"
          by blast
        from "2.IH"(4) [OF Some attr DVal h1]
        obtain w' e' res where
          r: "blob_deserialize cls r path rest w1 = (res, w')"
          and h': "heap w' r = Some e'" and i': "same_identity e1 e'" and f': "only_entity r w1 w'"
          and d: "(case res of
              Inr u \<Rightarrow> deserialized (base_blob_class cls) path rest (base_blob e1) = Some (base_blob e')
            | Inl err \<Rightarrow> deserialized (base_blob_class cls) path rest (base_blob e1) = None)"
          by blast
        show ?thesis
          using s r h' same_identity_trans [OF i1 i'] only_entity_trans [OF f1 f'] d
          by (auto simp add: Some attr DVal andthen_def b1 split: sum.splits)
      next
        case (DTuple vs)
        then show ?thesis using ent Some attr by simp
      next
        case (DDict d)
        then show ?thesis using ent Some attr by simp
      qed
    next
      case noattr: None
      show ?thesis
      proof (cases "map_of (blob_classes bc) k \<noteq> None")
        case False
        from "2.IH"(3) [OF Some noattr False ent]
        obtain w' e' res where
          r: "blob_deserialize cls r path rest w = (res, w')"
          and h': "heap w' r = Some e'" and i': "same_identity e e'" and f': "only_entity r w w'"
          and d': "(case res of
            Inr u \<Rightarrow> deserialized (base_blob_class cls) path rest (base_blob e) = Some (base_blob e')
          | Inl err \<Rightarrow> deserialized (base_blob_class cls) path rest (base_blob e) = None)"
          by blast
        have "blob_deserialize cls r path ((k, value) # rest) w = (res, w')"
          using r Some noattr False by simp
        moreover have "(case res of
            Inr u \<Rightarrow> deserialized (base_blob_class cls) path ((k, value) # rest) (base_blob e) = Some (base_blob e')
          | Inl err \<Rightarrow> deserialized (base_blob_class cls) path ((k, value) # rest) (base_blob e) = None)"
          using d' Some noattr False by (cases res) simp_all
        ultimately show ?thesis using h' i' f' by blast
      next
        case True
        show ?thesis
        proof (cases "value")
          case (DVal v)
          then show ?thesis using ent Some noattr True by simp
        next
          case (DTuple vs)
          then show ?thesis using ent Some noattr True by simp
        next
          case (DDict d)
          from "2.IH"(1) [OF Some noattr True DDict ent]
          obtain w1 e1 res1 where
            s: "blob_deserialize cls r (path @ [k]) d w = (res1, w1)"
            and h1: "heap w1 r = Some e1" and i1: "same_identity e e1" and f1: "only_entity r w w1"
            and d1: "(case res1 of
              Inr u \<Rightarrow> deserialized (base_blob_class cls) (path @ [k]) d (base_blob e) = Some (base_blob e1)
            | Inl err \<Rightarrow> deserialized (base_blob_class cls) (path @ [k]) d (base_blob e) = None)"
            by blast
          show ?thesis
          proof (cases res1)
            case (Inl err)
            then show ?thesis
              using s h1 i1 f1 d1 Some noattr True DDict by (auto simp add: andthen_def split: sum.splits)
          next
            case (Inr u)
            from "2.IH"(2) [OF Some noattr True DDict h1]
            obtain w' e' res where
              r: "blob_deserialize cls r path rest w1 = (res, w')"
              and h': "heap w' r = Some e'" and i': "same_identity e1 e'" and f': "only_entity r w1 w'"
              and d': "(case res of
                Inr u \<Rightarrow> deserialized (base_blob_class cls) path rest (base_blob e1) = Some (base_blob e')
              | Inl err \<Rightarrow> deserialized (base_blob_class cls) path rest (base_blob e1) = None)"
              by blast
            show ?thesis
              using s r h' same_identity_trans [OF i1 i'] only_entity_trans [OF f1 f'] d1 d' Inr
                Some noattr True DDict
              by (auto simp add: andthen_def split: sum.splits)
          qed
        qed
      qed
    qed
  qed
qed


lemma only_entity_update [simp]:
  "heap w r = Some e \<Longrightarrow> only_entity r w (update_entity r f w)"
  by (simp add: only_entity_def update_entity_def)

lemma update_entity_heap [simp]:
  "heap w r = Some e \<Longrightarrow> heap (update_entity r f w) r = Some (f e)"
  by (simp add: update_entity_def)



subsection \<open>The effect of construction\<close>




subsection \<open>Blobs at paths\<close>

lemma blob_at_snoc:
  "blob_at b (path @ [k]) = (case blob_at b path of None \<Rightarrow> None | Some t \<Rightarrow> map_of (blobs t) k)"
  by (induction path arbitrary: b) (auto split: option.splits)

lemma blob_class_at_snoc:
  "blob_class_at bc (path @ [k]) =
     (case blob_class_at bc path of None \<Rightarrow> None | Some c \<Rightarrow> map_of (blob_classes c) k)"
  by (induction path arbitrary: bc) (auto split: option.splits)

lemma blob_at_put:
  "blob_at b path = Some t \<Longrightarrow> blob_at (blob_put b path new) path = Some new"
  by (induction path arbitrary: b) (auto simp add: map_of_map_entry split: option.splits)

lemma blob_put_put:
  "blob_at b path = Some t \<Longrightarrow> blob_put (blob_put b path x) path y = blob_put b path y"
proof (induction path arbitrary: b)
  case Nil
  then show ?case by simp
next
  case (Cons p ps)
  then obtain sb where sb: "map_of (blobs b) p = Some sb" "blob_at sb ps = Some t"
    by (auto split: option.splits)
  have "AList.map_entry p (\<lambda>s. blob_put s ps y) (AList.map_entry p (\<lambda>s. blob_put s ps x) bs) =
        AList.map_entry p (\<lambda>s. blob_put s ps y) bs"
    if "map_of bs p = Some sb" for bs
    using that Cons.IH [OF sb(2)] by (induction bs) (auto split: if_splits)
  from this [OF sb(1)] show ?case by simp
qed

lemma blob_assign_put:
  "blob_at b path = Some t \<Longrightarrow>
   blob_assign b path name v = blob_put b path (Blob (AList.update name v (attr_values t)) (blobs t))"
proof (induction path arbitrary: b)
  case Nil
  then show ?case by (cases b) auto
next
  case (Cons p ps)
  then obtain sb where sb: "map_of (blobs b) p = Some sb" "blob_at sb ps = Some t"
    by (auto split: option.splits)
  have "AList.map_entry p (\<lambda>s. blob_assign s ps name v) bs =
        AList.map_entry p (\<lambda>s. blob_put s ps (Blob (AList.update name v (attr_values t)) (blobs t))) bs"
    if "map_of bs p = Some sb" for bs
    using that Cons.IH [OF sb(2)] by (induction bs) (auto split: if_splits)
  from this [OF sb(1)] show ?case by (cases b) simp
qed

lemma blob_put_snoc:
  "blob_at b path = Some t \<Longrightarrow>
   blob_put b (path @ [k]) new =
     blob_put b path (Blob (attr_values t) (AList.map_entry k (\<lambda>x. new) (blobs t)))"
proof (induction path arbitrary: b)
  case Nil
  then show ?case by simp
next
  case (Cons p ps)
  then obtain sb where sb: "map_of (blobs b) p = Some sb" "blob_at sb ps = Some t"
    by (auto split: option.splits)
  have "AList.map_entry p (\<lambda>s. blob_put s (ps @ [k]) new) bs =
        AList.map_entry p (\<lambda>s. blob_put s ps (Blob (attr_values t) (AList.map_entry k (\<lambda>x. new) (blobs t)))) bs"
    if "map_of bs p = Some sb" for bs
    using that Cons.IH [OF sb(2)] by (induction bs) (auto split: if_splits)
  from this [OF sb(1)] show ?case by simp
qed

subsection \<open>Instances of a blob class\<close>

lemma conforms_blobs_keys: "conforms_blobs bcs bs \<Longrightarrow> map fst bs = map fst bcs"
proof (induction bcs arbitrary: bs)
  case Nil
  then show ?case by simp
next
  case (Cons kc bcs)
  then show ?case by (cases bs) auto
qed

lemma conforms_blobs_lookup:
  "conforms_blobs bcs bs \<Longrightarrow> map_of bcs k = Some bc' \<Longrightarrow>
   \<exists>sb. map_of bs k = Some sb \<and> conforms bc' sb"
proof (induction bcs arbitrary: bs)
  case Nil
  then show ?case by simp
next
  case (Cons kc bcs)
  then show ?case by (cases bs; cases kc) (auto split: if_splits)
qed

lemma conforms_blobs_replace:
  "conforms_blobs bcs bs \<Longrightarrow> map_of bcs k = Some bc' \<Longrightarrow> conforms bc' sb' \<Longrightarrow>
   conforms_blobs bcs (AList.map_entry k (\<lambda>x. sb') bs)"
proof (induction bcs arbitrary: bs)
  case Nil
  then show ?case by simp
next
  case (Cons kc bcs)
  then show ?case by (cases bs; cases kc) (auto split: if_splits)
qed

lemma update_keys: "k \<in> fst ` set al \<Longrightarrow> map fst (AList.update k v al) = map fst al"
  by (induction al) auto

lemma conforms_attr_update:
  "conforms bc b \<Longrightarrow> map_of (attrs bc) k = Some attr \<Longrightarrow>
   conforms bc (Blob (AList.update k v (attr_values b)) (blobs b))"
proof -
  assume c: "conforms bc b" and a: "map_of (attrs bc) k = Some attr"
  obtain as bcs where bc: "bc = BlobClass as bcs" by (cases bc)
  obtain vs bs where b: "b = Blob vs bs" by (cases b)
  from a bc have "k \<in> set (map fst as)" by (auto dest: map_of_SomeD intro: rev_image_eqI)
  with c bc b have "k \<in> set (map fst vs)" by simp
  then show ?thesis using c bc b by (auto simp add: update_keys)
qed

lemma conforms_blob_replace:
  "conforms bc b \<Longrightarrow> map_of (blob_classes bc) k = Some bc' \<Longrightarrow> conforms bc' sb' \<Longrightarrow>
   conforms bc (Blob (attr_values b) (AList.map_entry k (\<lambda>x. sb') (blobs b)))"
  by (cases bc; cases b) (simp add: conforms_blobs_replace)

lemma conforms_lookup:
  "conforms bc b \<Longrightarrow> map_of (blob_classes bc) k = Some bc' \<Longrightarrow>
   \<exists>sb. map_of (blobs b) k = Some sb \<and> conforms bc' sb"
  by (cases bc; cases b) (auto dest: conforms_blobs_lookup)

lemma load_into_conforms:
  "conforms bc b \<Longrightarrow> load_into bc data b = Some b' \<Longrightarrow> conforms bc b'"
proof (induction bc data b arbitrary: b' rule: load_into.induct)
  case (1 bc b)
  then show ?case by simp
next
  case (2 bc k "value" rest b)
  show ?case
  proof (cases "map_of (attrs bc) k")
    case (Some attr)
    with "2.prems" obtain v where v: "value = DVal v"
      by (cases "value") simp_all
    from "2.IH"(4) [OF Some v conforms_attr_update [OF "2.prems"(1) Some]] "2.prems"(2) Some v
    show ?thesis by simp
  next
    case None
    show ?thesis
    proof (cases "map_of (blob_classes bc) k")
      case noblob: None
      with "2.IH"(1) [OF None noblob "2.prems"(1)] "2.prems"(2) None show ?thesis by simp
    next
      case (Some bc')
      with "2.prems" None obtain d where d: "value = DDict d"
        by (cases "value") simp_all
      from conforms_lookup [OF "2.prems"(1) Some] obtain sb where
        sb: "map_of (blobs b) k = Some sb" "conforms bc' sb" by blast
      from "2.prems"(2) None Some d sb obtain sb' where
        sb': "load_into bc' d sb = Some sb'"
        and rest: "load_into bc rest (Blob (attr_values b) (AList.map_entry k (\<lambda>x. sb') (blobs b))) = Some b'"
        by (auto split: option.splits)
      have c': "conforms bc' sb'" using "2.IH"(2) [OF None Some d sb(1) sb(2) sb'] .
      from "2.IH"(3) [OF None Some d sb(1) sb' conforms_blob_replace [OF "2.prems"(1) Some c'] rest]
      show ?thesis .
    qed
  qed
qed

subsection \<open>Deserialization at a path and on the blob itself\<close>

lemma deserialized_load_into:
  assumes "blob_class_at whole path = Some bc" "blob_at tgt path = Some t" "conforms bc t"
  shows "deserialized whole path data tgt = map_option (blob_put tgt path) (load_into bc data t)"
  using assms
proof (induction whole path data tgt arbitrary: bc t rule: deserialized.induct)
  case (1 whole path b)
  have "blob_put b path t = b" if "blob_at b path = Some t" for b
    using that
  proof (induction path arbitrary: b)
    case Nil
    then show ?case by simp
  next
    case (Cons p ps)
    then obtain sb where sb: "map_of (blobs b) p = Some sb" "blob_at sb ps = Some t"
      by (auto split: option.splits)
    have "AList.map_entry p (\<lambda>s. blob_put s ps t) bs = bs" if "map_of bs p = Some sb" for bs
      using that Cons.IH [OF sb(2)] by (induction bs) (auto split: if_splits)
    from this [OF sb(1)] show ?case by (cases b) simp
  qed
  with 1 show ?case by simp
next
  case (2 whole path k "value" rest b)
  note cls = \<open>blob_class_at whole path = Some bc\<close>
  note at = \<open>blob_at b path = Some t\<close>
  note conf = \<open>conforms bc t\<close>
  show ?case
  proof (cases "map_of (attrs bc) k")
    case attr: (Some attr)
    show ?thesis
    proof (cases "value")
      case (DVal v)
      let ?v = "if v \<noteq> Unset then a_deserialize attr v else v"
      let ?t1 = "Blob (AList.update k ?v (attr_values t)) (blobs t)"
      have a: "blob_assign b path k ?v = blob_put b path ?t1" using at by (rule blob_assign_put)
      have at1: "blob_at (blob_assign b path k ?v) path = Some ?t1"
        unfolding a using at by (rule blob_at_put)
      have c1: "conforms bc ?t1" using conf attr by (rule conforms_attr_update)
      from "2.IH"(4) [OF cls attr DVal cls at1 c1]
      have "deserialized whole path rest (blob_assign b path k ?v) =
              map_option (blob_put (blob_put b path ?t1) path) (load_into bc rest ?t1)"
        by (simp only: a)
      also have "blob_put (blob_put b path ?t1) path = blob_put b path"
        using blob_put_put [OF at] by (simp add: fun_eq_iff)
      finally show ?thesis using cls attr DVal by simp
    next
      case (DTuple vs)
      then show ?thesis using cls attr by simp
    next
      case (DDict d)
      then show ?thesis using cls attr by simp
    qed
  next
    case noattr: None
    show ?thesis
    proof (cases "map_of (blob_classes bc) k")
      case noblob: None
      then have "\<not> map_of (blob_classes bc) k \<noteq> None" by simp
      from "2.IH"(3) [OF cls noattr this cls at conf] cls noattr noblob show ?thesis by simp
    next
      case (Some bc')
      then have ne: "map_of (blob_classes bc) k \<noteq> None" by simp
      show ?thesis
      proof (cases "value")
        case (DVal v)
        then show ?thesis using cls noattr Some by simp
      next
        case (DTuple vs)
        then show ?thesis using cls noattr Some by simp
      next
        case (DDict d)
        from conforms_lookup [OF conf Some] obtain sb where
          sb: "map_of (blobs t) k = Some sb" "conforms bc' sb" by blast
        have cls': "blob_class_at whole (path @ [k]) = Some bc'"
          using cls Some by (simp add: blob_class_at_snoc)
        have at': "blob_at b (path @ [k]) = Some sb"
          using at sb(1) by (simp add: blob_at_snoc)
        note ih1 = "2.IH"(1) [OF cls noattr ne DDict cls' at' sb(2)]
        show ?thesis
        proof (cases "load_into bc' d sb")
          case None
          then show ?thesis using ih1 cls noattr Some DDict sb by simp
        next
          case sb': (Some sb')
          let ?t1 = "Blob (attr_values t) (AList.map_entry k (\<lambda>x. sb') (blobs t))"
          have d1: "deserialized whole (path @ [k]) d b = Some (blob_put b path ?t1)"
            using ih1 sb' blob_put_snoc [OF at] by simp
          have at1: "blob_at (blob_put b path ?t1) path = Some ?t1" using at by (rule blob_at_put)
          have c1: "conforms bc ?t1"
            using conf Some load_into_conforms [OF sb(2) sb'] by (rule conforms_blob_replace)
          from "2.IH"(2) [OF cls noattr ne DDict d1 cls at1 c1]
          have "deserialized whole path rest (blob_put b path ?t1) =
                  map_option (blob_put (blob_put b path ?t1) path) (load_into bc rest ?t1)" .
          also have "blob_put (blob_put b path ?t1) path = blob_put b path"
            using blob_put_put [OF at] by (simp add: fun_eq_iff)
          finally show ?thesis using cls noattr Some DDict sb sb' d1 by simp
        qed
      qed
    qed
  qed
qed

subsection \<open>Dicts as association lists\<close>

lemma update_absent: "k \<notin> fst ` set al \<Longrightarrow> AList.update k v al = al @ [(k, v)]"
  by (induction al) auto

lemma alist_eqI:
  "map fst xs = map fst ys \<Longrightarrow> distinct (map fst xs) \<Longrightarrow> map_of xs = map_of ys \<Longrightarrow> xs = ys"
proof (induction xs arbitrary: ys)
  case Nil
  then show ?case by simp
next
  case (Cons x xs)
  then obtain y ys' where ys: "ys = y # ys'" by (cases ys) auto
  from Cons.prems ys have k: "fst x = fst y" and ks: "map fst xs = map fst ys'" by simp_all
  from Cons.prems(3) ys k have "snd x = snd y"
    by (cases x; cases y) (auto dest: fun_cong [where x = "fst x"])
  with k have xy: "x = y" by (simp add: prod_eq_iff)
  have "map_of xs = map_of ys'"
  proof
    fix a
    show "map_of xs a = map_of ys' a"
    proof (cases "a = fst x")
      case True
      with Cons.prems(2) have "a \<notin> fst ` set xs" by simp
      moreover from this ks have "a \<notin> fst ` set ys'" by (metis set_map)
      ultimately have "map_of xs a = None" "map_of ys' a = None"
        by (simp_all only: map_of_eq_None_iff not_False_eq_True)
      then show ?thesis by simp
    next
      case False
      with Cons.prems(3) ys xy show ?thesis
        by (cases x) (auto dest: fun_cong [where x = a] split: if_splits)
    qed
  qed
  with Cons.IH [OF ks] Cons.prems(2) xy ys show ?case by simp
qed

lemma map_entry_keys [simp]: "map fst (AList.map_entry k f al) = map fst al"
  by (induction al) auto

lemma dict_update_map_of:
  "distinct (map fst other) \<Longrightarrow> map_of (dict_update d other) = map_of d ++ map_of other"
proof (induction other arbitrary: d)
  case Nil
  then show ?case by (simp add: dict_update_def)
next
  case (Cons kv other)
  have "map_of (dict_update d (kv # other)) = map_of (AList.update (fst kv) (snd kv) d) ++ map_of other"
    using Cons by (simp add: dict_update_def)
  also have "\<dots> = map_of d ++ map_of (kv # other)"
  proof
    fix a
    have "map_of other (fst kv) = None"
      using Cons.prems by (simp add: map_of_eq_None_iff)
    then show "(map_of (AList.update (fst kv) (snd kv) d) ++ map_of other) a =
               (map_of d ++ map_of (kv # other)) a"
      by (cases kv) (auto simp add: update_conv' map_add_def split: option.splits)
  qed
  finally show ?case .
qed

lemma dict_update_keys:
  "fst ` set other \<subseteq> fst ` set d \<Longrightarrow> map fst (dict_update d other) = map fst d"
proof (induction other arbitrary: d)
  case Nil
  then show ?case by (simp add: dict_update_def)
next
  case (Cons kv other)
  from Cons.prems have k: "fst kv \<in> fst ` set d" by simp
  then have keys: "map fst (AList.update (fst kv) (snd kv) d) = map fst d" by (rule update_keys)
  then have "fst ` set (AList.update (fst kv) (snd kv) d) = fst ` set d"
    by (metis set_map)
  with Cons.prems have "fst ` set other \<subseteq> fst ` set (AList.update (fst kv) (snd kv) d)" by simp
  from Cons.IH [OF this] keys show ?case by (simp add: dict_update_def)
qed

text \<open>Writing a value for every key of a dict, in the dict's order, gives those values.\<close>

lemma dict_update_all:
  assumes "map fst other = map fst d" "distinct (map fst d)"
  shows "dict_update d other = other"
proof (rule alist_eqI)
  have sub: "fst ` set other \<subseteq> fst ` set d" using assms(1) by (metis set_map subset_refl)
  show "map fst (dict_update d other) = map fst other"
    using dict_update_keys [OF sub] assms(1) by simp
  then show "distinct (map fst (dict_update d other))" using assms by simp
  have dom: "dom (map_of d) = dom (map_of other)"
    using assms(1) by (metis dom_map_of_conv_image_fst set_map)
  show "map_of (dict_update d other) = map_of other"
  proof
    fix a
    show "map_of (dict_update d other) a = map_of other a"
      using dom assms dict_update_map_of [of other d]
      by (auto simp add: map_add_def split: option.splits)
  qed
qed

lemma replace_blobs_keys [simp]: "map fst (replace_blobs cur items) = map fst cur"
  by (induction items arbitrary: cur) (simp_all add: replace_blobs_def)

lemma replace_blobs_map_of:
  "distinct (map fst items) \<Longrightarrow> fst ` set items \<subseteq> fst ` set cur \<Longrightarrow>
   map_of (replace_blobs cur items) = map_of cur ++ map_of items"
proof (induction items arbitrary: cur)
  case Nil
  then show ?case by (simp add: replace_blobs_def)
next
  case (Cons kb items)
  let ?cur = "AList.map_entry (fst kb) (\<lambda>x. snd kb) cur"
  have keys: "fst ` set ?cur = fst ` set cur" by (rule dom_map_entry)
  from Cons.prems have d: "distinct (map fst items)" and s: "fst ` set items \<subseteq> fst ` set ?cur"
    by (simp_all add: keys)
  have "map_of (replace_blobs cur (kb # items)) = map_of ?cur ++ map_of items"
    using Cons.IH [OF d s] by (simp add: replace_blobs_def)
  also have "\<dots> = map_of cur ++ map_of (kb # items)"
  proof
    fix a
    have n: "map_of items (fst kb) = None"
      using Cons.prems(1) by (simp add: map_of_eq_None_iff)
    from Cons.prems(2) have "fst kb \<in> fst ` set cur" by simp
    then obtain v where v: "map_of cur (fst kb) = Some v"
      by (metis map_of_eq_None_iff not_None_eq)
    show "(map_of ?cur ++ map_of items) a = (map_of cur ++ map_of (kb # items)) a"
      using n v by (cases kb) (auto simp add: map_of_map_entry map_add_def split: option.splits)
  qed
  finally show ?case .
qed

lemma replace_blobs_all:
  assumes "map fst items = map fst cur" "distinct (map fst cur)"
  shows "replace_blobs cur items = items"
proof (rule alist_eqI)
  show "map fst (replace_blobs cur items) = map fst items" using assms(1) by simp
  then show "distinct (map fst (replace_blobs cur items))" using assms by simp
  have sub: "fst ` set items \<subseteq> fst ` set cur" using assms(1) by (metis set_map subset_refl)
  have dom: "dom (map_of cur) = dom (map_of items)"
    using assms(1) by (metis dom_map_of_conv_image_fst set_map)
  show "map_of (replace_blobs cur items) = map_of items"
  proof
    fix a
    show "map_of (replace_blobs cur items) a = map_of items a"
      using dom assms replace_blobs_map_of [OF _ sub]
      by (auto simp add: map_add_def split: option.splits)
  qed
qed

subsection \<open>Serialized items, written and read back\<close>

lemma serialize_attrs_distinct:
  assumes "distinct (map fst as)" "fst ` set as \<inter> fst ` set data0 = {}"
  shows "serialize_attrs as b data0 =
           Inr (data0 @ map (\<lambda>ka. (fst ka, DVal (ser_val (snd ka) (get_attr_val b (fst ka))))) as)"
  using assms
proof (induction as arbitrary: data0)
  case Nil
  then show ?case by simp
next
  case (Cons ka as)
  obtain k attr where ka: "ka = (k, attr)" by (cases ka)
  from Cons.prems ka have absent: "k \<notin> fst ` set data0" by auto
  then have none: "map_of data0 k = None" by (simp add: map_of_eq_None_iff)
  let ?d = "data0 @ [(k, DVal (ser_val attr (get_attr_val b k)))]"
  have "distinct (map fst as)" "fst ` set as \<inter> fst ` set ?d = {}"
    using Cons.prems ka by auto
  from Cons.IH [OF this] show ?case
    using none absent ka by (simp add: update_absent ser_val_def Let_def)
qed

lemma serialize_blobs_distinct:
  assumes "distinct (map fst items)" "fst ` set items \<inter> fst ` set data0 = {}"
    and "\<forall>kb\<in>set items. \<exists>bc'. map_of (blob_classes bc) (fst kb) = Some bc' \<and>
           blob_serialize bc' (snd kb) = Inr (sd kb)"
  shows "serialize_blobs bc items data0 = Inr (data0 @ map (\<lambda>kb. (fst kb, DDict (sd kb))) items)"
  using assms
proof (induction items arbitrary: data0)
  case Nil
  then show ?case by simp
next
  case (Cons kb items)
  obtain k b where kb: "kb = (k, b)" by (cases kb)
  from Cons.prems(3) kb obtain bc' where
    bc': "map_of (blob_classes bc) k = Some bc'" "blob_serialize bc' b = Inr (sd kb)" by auto
  from Cons.prems kb have absent: "k \<notin> fst ` set data0" by auto
  let ?d = "data0 @ [(k, DDict (sd kb))]"
  have "distinct (map fst items)" "fst ` set items \<inter> fst ` set ?d = {}"
    "\<forall>kb\<in>set items. \<exists>bc'. map_of (blob_classes bc) (fst kb) = Some bc' \<and>
           blob_serialize bc' (snd kb) = Inr (sd kb)"
    using Cons.prems kb by auto
  from Cons.IH [OF this] show ?case
    using bc' absent kb by (simp add: update_absent)
qed

lemma load_into_attrs:
  assumes "\<forall>ka\<in>set as. map_of (attrs bc) (fst ka) = Some (snd ka) \<and> hook_ok (snd ka) (g (fst ka))"
  shows "load_into bc (map (\<lambda>ka. (fst ka, DVal (ser_val (snd ka) (g (fst ka))))) as @ later) (Blob cur bs) =
         load_into bc later (Blob (dict_update cur (map (\<lambda>ka. (fst ka, g (fst ka))) as)) bs)"
  using assms
proof (induction as arbitrary: cur)
  case Nil
  then show ?case by (simp add: dict_update_def)
next
  case (Cons ka as)
  obtain k attr where ka: "ka = (k, attr)" by (cases ka)
  from Cons.prems ka have a: "map_of (attrs bc) k = Some attr" and h: "hook_ok attr (g k)" by auto
  have v: "(if ser_val attr (g k) \<noteq> Unset then a_deserialize attr (ser_val attr (g k))
            else ser_val attr (g k)) = g k"
    using h by (auto simp add: hook_ok_def ser_val_def)
  from Cons.prems have "\<forall>ka\<in>set as. map_of (attrs bc) (fst ka) = Some (snd ka) \<and> hook_ok (snd ka) (g (fst ka))"
    by simp
  from Cons.IH [OF this, of "AList.update k (g k) cur"] show ?case
    using a v ka by (simp add: dict_update_def)
qed

lemma load_into_blobs:
  assumes "\<forall>kb\<in>set items. map_of (attrs bc) (fst kb) = None \<and>
             (\<exists>bc'. map_of (blob_classes bc) (fst kb) = Some bc' \<and> conforms bc' (snd kb) \<and>
                (\<forall>t. conforms bc' t \<longrightarrow> load_into bc' (sd kb) t = Some (snd kb)))"
    and "conforms_blobs (blob_classes bc) cur"
  shows "load_into bc (map (\<lambda>kb. (fst kb, DDict (sd kb))) items @ later) (Blob vs cur) =
         load_into bc later (Blob vs (replace_blobs cur items))"
  using assms
proof (induction items arbitrary: cur)
  case Nil
  then show ?case by (simp add: replace_blobs_def)
next
  case (Cons kb items)
  obtain k b where kb: "kb = (k, b)" by (cases kb)
  from Cons.prems(1) kb obtain bc' where
    na: "map_of (attrs bc) k = None" and bc': "map_of (blob_classes bc) k = Some bc'"
    and cb: "conforms bc' b" and rt: "\<forall>t. conforms bc' t \<longrightarrow> load_into bc' (sd kb) t = Some b"
    by auto
  from conforms_blobs_lookup [OF Cons.prems(2) bc'] obtain sb where
    sb: "map_of cur k = Some sb" "conforms bc' sb" by blast
  from rt sb(2) have l: "load_into bc' (sd kb) sb = Some b" by simp
  have c': "conforms_blobs (blob_classes bc) (AList.map_entry k (\<lambda>x. b) cur)"
    using Cons.prems(2) bc' cb by (rule conforms_blobs_replace)
  from Cons.prems(1) have "\<forall>kb\<in>set items. map_of (attrs bc) (fst kb) = None \<and>
             (\<exists>bc'. map_of (blob_classes bc) (fst kb) = Some bc' \<and> conforms bc' (snd kb) \<and>
                (\<forall>t. conforms bc' t \<longrightarrow> load_into bc' (sd kb) t = Some (snd kb)))"
    by simp
  from Cons.IH [OF this c'] show ?case
    using na bc' sb l kb by (simp add: replace_blobs_def)
qed

subsection \<open>The example states, computed\<close>

lemma timecode_50000: "int_to_base_n 50000 uid_timecode_charset = ''cw4''"
  by (simp add: int_to_base_n_def base_n_digits.simps uid_timecode_charset_def)

lemma named_w1_run: "init_entity Named None False True named_w0 = (Inr 0, named_w1)"
  by (simp add: init_entity_def named_w0_def class_defined_def register_cache_def Named_def
      get_key_name_def andthen_def assign_uid_def the_entity_def new_entity_def
      EntityVersion_def Attribute_def make_uid_def uid_timecode_multiplier_def
      update_entity_def register_instance_def Let_def key_def get_attr_val_def
      lru_contains_def lru_set_def named_w1_def named_world_def named_entity_def timecode_50000)

lemma named_w2_run: "entity_setattr Named 0 ''name'' (PStr ''A'') named_w1 = (Inr (), named_w2)"
  apply (simp add: entity_setattr_def Named_def Attribute_def EntityVersion_def)
  apply (simp add: set_attr_val_def commit_attr_val_def andthen_def named_w1_def named_world_def named_entity_def key_def get_attr_val_def)
  apply (simp add: relocate_def get_key_name_def lru_contains_def lru_del_def lru_set_def
      AList.delete_eq named_w2_def named_world_def named_entity_def)
  done

lemma named_w2_write:
  "set_attr_val Named 0 [] ''name'' (PStr ''A'') True False named_w1 = (Inr (), named_w2)"
  using named_w2_run by (simp add: entity_setattr_def Named_def Attribute_def EntityVersion_def)

lemma named_serialize:
  "entity_serialize Named (named_entity nm [] d) = Inr (named_data nm)"
  by (simp add: entity_serialize_def Named_def named_entity_def named_data_def tags_data_def
      get_attr_val_def Attribute_def EntityVersion_def)

lemma named_key [simp]: "key Named (named_entity nm ts d) = nm"
  by (simp add: key_def Named_def named_entity_def get_attr_val_def)

lemma named_heap [simp]: "heap (named_world e cached st) 0 = Some e"
  by (simp add: named_world_def)

subsection \<open>\<open>serialize\<close> and \<open>deserialize\<close> are inverse\<close>

lemma aligned_blobs:
  "conforms_blobs bcs bs \<Longrightarrow> hooks_ok_blobs bcs bs \<Longrightarrow> list_all (\<lambda>kc. wf_class (snd kc)) bcs \<Longrightarrow>
   distinct (map fst bcs) \<Longrightarrow> kb \<in> set bs \<Longrightarrow>
   \<exists>kc\<in>set bcs. fst kc = fst kb \<and> map_of bcs (fst kb) = Some (snd kc) \<and>
      conforms (snd kc) (snd kb) \<and> hooks_ok (snd kc) (snd kb) \<and> wf_class (snd kc)"
proof (induction bcs arbitrary: bs)
  case Nil
  then show ?case by simp
next
  case (Cons kc bcs)
  then obtain kb0 bs' where bs: "bs = kb0 # bs'" by (cases bs) auto
  show ?case
  proof (cases "kb = kb0")
    case True
    with Cons.prems bs show ?thesis by (cases kc) auto
  next
    case False
    with Cons.prems bs have in': "kb \<in> set bs'" by simp
    from Cons.prems bs have p: "conforms_blobs bcs bs'" "hooks_ok_blobs bcs bs'"
      "list_all (\<lambda>kc. wf_class (snd kc)) bcs" "distinct (map fst bcs)" by simp_all
    from Cons.IH [OF p in'] obtain kc' where kc': "kc' \<in> set bcs" "fst kc' = fst kb"
      "map_of bcs (fst kb) = Some (snd kc')" "conforms (snd kc') (snd kb)"
      "hooks_ok (snd kc') (snd kb)" "wf_class (snd kc')" by blast
    from kc'(1,2) Cons.prems(4) have "fst kc \<noteq> fst kb" by (cases kc) force
    with kc' show ?thesis by (cases kc) auto
  qed
qed

lemma get_attr_val_items:
  "distinct (map fst vs) \<Longrightarrow> map (\<lambda>kv. (fst kv, get_attr_val (Blob vs bs) (fst kv))) vs = vs"
proof -
  assume d: "distinct (map fst vs)"
  have "get_attr_val (Blob vs bs) (fst kv) = snd kv" if kv: "kv \<in> set vs" for kv
  proof -
    from kv have "(fst kv, snd kv) \<in> set vs" by simp
    from map_of_is_SomeI [OF d this] show ?thesis by (simp add: get_attr_val_def)
  qed
  then show ?thesis by (simp add: map_idI)
qed

text \<open>
  The data \<open>serialize\<close> makes of an instance, read by \<open>deserialize\<close> into any
  instance of the class, gives the first instance.
\<close>

lemma serialize_load_into:
  "wf_class bc \<Longrightarrow> conforms bc src \<Longrightarrow> hooks_ok bc src \<Longrightarrow>
   \<exists>data. blob_serialize bc src = Inr data \<and> (\<forall>t. conforms bc t \<longrightarrow> load_into bc data t = Some src)"
proof (induction bc arbitrary: src)
  case (BlobClass as bcs)
  obtain vs bs where src: "src = Blob vs bs" by (cases src)
  let ?bc = "BlobClass as bcs"
  from BlobClass.prems src have
    keys_vs: "map fst vs = map fst as" and cb: "conforms_blobs bcs bs"
    and dist: "distinct (map fst as @ map fst bcs)" and wfs: "list_all (\<lambda>kc. wf_class (snd kc)) bcs"
    and hk: "list_all (\<lambda>ka. hook_ok (snd ka) (get_attr_val src (fst ka))) as"
    and hb: "hooks_ok_blobs bcs bs"
    by simp_all
  have keys_bs: "map fst bs = map fst bcs" using cb by (rule conforms_blobs_keys)
  define sd where "sd kb = (case map_of bcs (fst kb) of
      Some bc' \<Rightarrow> (case blob_serialize bc' (snd kb) of Inr d \<Rightarrow> d | Inl err \<Rightarrow> [])
    | None \<Rightarrow> [])" for kb :: "string \<times> blob"
  have sub: "\<exists>bc'. map_of bcs (fst kb) = Some bc' \<and> conforms bc' (snd kb) \<and>
      blob_serialize bc' (snd kb) = Inr (sd kb) \<and>
      (\<forall>t. conforms bc' t \<longrightarrow> load_into bc' (sd kb) t = Some (snd kb))"
    if "kb \<in> set bs" for kb
  proof -
    from dist have "distinct (map fst bcs)" by simp
    from aligned_blobs [OF cb hb wfs this that] obtain kc where
      kc: "kc \<in> set bcs" "map_of bcs (fst kb) = Some (snd kc)" "conforms (snd kc) (snd kb)"
        "hooks_ok (snd kc) (snd kb)" "wf_class (snd kc)" by blast
    have "snd kc \<in> Basic_BNFs.snds kc" by (cases kc) simp
    from BlobClass.IH [OF kc(1) this kc(5) kc(3) kc(4)] obtain d where
      d: "blob_serialize (snd kc) (snd kb) = Inr d"
        "\<forall>t. conforms (snd kc) t \<longrightarrow> load_into (snd kc) d t = Some (snd kb)" by blast
    then have "sd kb = d" using kc(2) by (simp add: sd_def)
    with d kc show ?thesis by auto
  qed
  let ?bitems = "map (\<lambda>kb. (fst kb, DDict (sd kb))) bs"
  let ?aitems = "map (\<lambda>ka. (fst ka, DVal (ser_val (snd ka) (get_attr_val src (fst ka))))) as"
  have "serialize_blobs ?bc bs [] = Inr ([] @ ?bitems)"
  proof (rule serialize_blobs_distinct)
    show "distinct (map fst bs)" using dist keys_bs by simp
    show "fst ` set bs \<inter> fst ` set [] = {}" by simp
    show "\<forall>kb\<in>set bs. \<exists>bc'. map_of (blob_classes ?bc) (fst kb) = Some bc' \<and>
           blob_serialize bc' (snd kb) = Inr (sd kb)"
    proof
      fix kb assume "kb \<in> set bs"
      from sub [OF this] show "\<exists>bc'. map_of (blob_classes ?bc) (fst kb) = Some bc' \<and>
           blob_serialize bc' (snd kb) = Inr (sd kb)" by auto
    qed
  qed
  then have s1: "serialize_blobs ?bc bs [] = Inr ?bitems" by simp
  have "fst ` set ?bitems = set (map fst bs)" by (simp add: image_comp comp_def)
  then have "fst ` set ?bitems = set (map fst bcs)" by (simp only: keys_bs)
  moreover have "set (map fst as) \<inter> set (map fst bcs) = {}" using dist by simp
  ultimately have "fst ` set as \<inter> fst ` set ?bitems = {}" by simp
  with serialize_attrs_distinct [of as ?bitems src] dist
  have s2: "serialize_attrs as src ?bitems = Inr (?bitems @ ?aitems)" by simp
  have ser: "blob_serialize ?bc src = Inr (?bitems @ ?aitems)"
    using s1 s2 src by simp
  have load: "load_into ?bc (?bitems @ ?aitems) t = Some src" if t: "conforms ?bc t" for t
  proof -
    obtain tvs tbs where tt: "t = Blob tvs tbs" by (cases t)
    from t tt have keys_tvs: "map fst tvs = map fst as" and ctb: "conforms_blobs bcs tbs" by simp_all
    have keys_tbs: "map fst tbs = map fst bcs" using ctb by (rule conforms_blobs_keys)
    have na: "map_of as (fst kb) = None" if "kb \<in> set bs" for kb
    proof -
      from that keys_bs have "fst kb \<in> set (map fst bcs)" by (metis image_eqI set_map)
      with dist have "fst kb \<notin> fst ` set as" by auto
      then show ?thesis by (simp add: map_of_eq_None_iff)
    qed
    have b: "load_into ?bc (?bitems @ ?aitems) (Blob tvs tbs) =
             load_into ?bc ?aitems (Blob tvs (replace_blobs tbs bs))"
    proof (rule load_into_blobs)
      show "conforms_blobs (blob_classes ?bc) tbs" using ctb by simp
      show "\<forall>kb\<in>set bs. map_of (attrs ?bc) (fst kb) = None \<and>
             (\<exists>bc'. map_of (blob_classes ?bc) (fst kb) = Some bc' \<and> conforms bc' (snd kb) \<and>
                (\<forall>t. conforms bc' t \<longrightarrow> load_into bc' (sd kb) t = Some (snd kb)))"
      proof
        fix kb assume kb: "kb \<in> set bs"
        from sub [OF kb] na [OF kb]
        show "map_of (attrs ?bc) (fst kb) = None \<and>
             (\<exists>bc'. map_of (blob_classes ?bc) (fst kb) = Some bc' \<and> conforms bc' (snd kb) \<and>
                (\<forall>t. conforms bc' t \<longrightarrow> load_into bc' (sd kb) t = Some (snd kb)))"
          by auto
      qed
    qed
    have "\<forall>ka\<in>set as. map_of (attrs ?bc) (fst ka) = Some (snd ka) \<and>
            hook_ok (snd ka) (get_attr_val src (fst ka))"
      using dist hk by (auto simp add: list_all_iff)
    from load_into_attrs [OF this, of "[]" tvs "replace_blobs tbs bs"]
    have a: "load_into ?bc ?aitems (Blob tvs (replace_blobs tbs bs)) =
             Some (Blob (dict_update tvs (map (\<lambda>ka. (fst ka, get_attr_val src (fst ka))) as))
                     (replace_blobs tbs bs))"
      by simp
    have "map (\<lambda>ka. (fst ka, get_attr_val src (fst ka))) as =
          map (\<lambda>kv. (fst kv, get_attr_val src (fst kv))) vs"
    proof -
      have "map (\<lambda>ka. (fst ka, get_attr_val src (fst ka))) as =
            map (\<lambda>k. (k, get_attr_val src k)) (map fst as)" by (simp add: comp_def)
      also have "\<dots> = map (\<lambda>k. (k, get_attr_val src k)) (map fst vs)" by (simp only: keys_vs)
      finally show ?thesis by (simp add: comp_def)
    qed
    also have "\<dots> = vs"
      using get_attr_val_items [of vs bs] dist keys_vs src by simp
    finally have items: "map (\<lambda>ka. (fst ka, get_attr_val src (fst ka))) as = vs" .
    have v: "dict_update tvs vs = vs"
      using dist keys_vs keys_tvs by (intro dict_update_all) simp_all
    have r: "replace_blobs tbs bs = bs"
      using dist keys_bs keys_tbs by (intro replace_blobs_all) simp_all
    from b a items v r tt src show ?thesis by simp
  qed
  from ser load show ?case by blast
qed

text \<open>What \<open>DataBlob.__init__\<close> builds is an instance of the class.\<close>

lemma conforms_new_blob: "conforms bc (new_blob bc)"
proof (induction bc)
  case (BlobClass as bcs)
  have "conforms_blobs bcs' (map (\<lambda>kb. (fst kb, new_blob (snd kb))) bcs')" if "set bcs' \<subseteq> set bcs" for bcs'
    using that
  proof (induction bcs')
    case Nil
    then show ?case by simp
  next
    case (Cons kc bcs')
    then have "kc \<in> set bcs" by simp
    moreover have "snd kc \<in> Basic_BNFs.snds kc" by (cases kc) simp
    ultimately have "conforms (snd kc) (new_blob (snd kc))" by (rule BlobClass.IH)
    with Cons show ?case by simp
  qed
  then show ?case by (simp add: comp_def)
qed

lemma map_of_map_snd:
  "map_of (map (\<lambda>kx. (fst kx, f (snd kx))) xs) k = map_option f (map_of xs k)"
  by (induction xs) auto

lemma shield_lookup:
  "map_of (attrs (shield u bc)) k = map_option (shield_attr u) (map_of (attrs bc) k)"
  "map_of (blob_classes (shield u bc)) k = map_option (shield u) (map_of (blob_classes bc) k)"
  by (cases bc; simp add: map_of_map_snd)+

lemma shield_class_at:
  "blob_class_at (shield u bc) path = map_option (shield u) (blob_class_at bc path)"
proof (induction bc path rule: blob_class_at.induct)
  case (1 bc)
  then show ?case by simp
next
  case (2 bc p ps)
  then show ?case by (cases "map_of (blob_classes bc) p") (simp_all add: shield_lookup)
qed

lemma shield_hooks:
  "v \<noteq> Unset \<Longrightarrow> a_serialize (shield_attr u attr) v = a_serialize attr v"
  "v \<noteq> Unset \<Longrightarrow> a_deserialize (shield_attr u attr) v = a_deserialize attr v"
  by (simp_all add: shield_attr_def)

lemma serialize_attrs_shield:
  "serialize_attrs (map (\<lambda>ka. (fst ka, shield_attr u (snd ka))) as) b data = serialize_attrs as b data"
proof (induction as arbitrary: data)
  case Nil
  then show ?case by simp
next
  case (Cons ka as)
  obtain k attr where ka: "ka = (k, attr)" by (cases ka)
  show ?case using Cons.IH by (simp add: ka shield_hooks Let_def)
qed

lemma serialize_shield:
  "blob_serialize (shield u bc) b = blob_serialize bc b"
  "serialize_blobs (shield u bc) bs data = serialize_blobs bc bs data"
proof (induction bc b and bc bs data rule: blob_serialize_serialize_blobs.induct)
  case (1 bc vs bs)
  obtain as bcs where bc: "bc = BlobClass as bcs" by (cases bc)
  show ?case using 1 by (simp add: bc serialize_attrs_shield split: sum.splits)
next
  case (2 bc data)
  then show ?case by simp
next
  case (3 bc k b rest data)
  show ?case
  proof (cases "map_of (blob_classes bc) k")
    case None
    then show ?thesis by (simp add: shield_lookup)
  next
    case (Some bc')
    show ?thesis
    proof (cases "blob_serialize bc' b")
      case (Inl err)
      then show ?thesis using Some 3(1) [OF Some] by (simp add: shield_lookup)
    next
      case (Inr d)
      then show ?thesis using Some 3(1) [OF Some] 3(2) [OF Some Inr] by (simp add: shield_lookup)
    qed
  qed
qed

lemma shield_key [simp]:
  "key (cls\<lparr>base_blob_class := c\<rparr>) e = key cls e"
  "get_key_name (cls\<lparr>base_blob_class := c\<rparr>) = get_key_name cls"
  by (simp_all add: key_def get_key_name_def)

lemma commit_attr_val_shield:
  "commit_attr_val (cls\<lparr>base_blob_class := c\<rparr>) r path k v w = commit_attr_val cls r path k v w"
  by (simp add: commit_attr_val_def relocate_def Let_def split: option.splits)

lemma set_attr_val_shield:
  "set_attr_val (cls\<lparr>base_blob_class := shield u (base_blob_class cls)\<rparr>) r path k v False True w =
   set_attr_val cls r path k v False True w"
  by (simp add: set_attr_val_def commit_attr_val_shield shield_class_at shield_lookup andthen_def
      split: option.splits)

lemma deserialize_shield:
  "blob_deserialize (cls\<lparr>base_blob_class := shield u (base_blob_class cls)\<rparr>) r path data w =
   blob_deserialize cls r path data w"
proof (induction cls r path data w rule: blob_deserialize.induct)
  case (1 cls r path w)
  then show ?case by simp
next
  case (2 cls r path k "value" rest w)
  let ?cls = "cls\<lparr>base_blob_class := shield u (base_blob_class cls)\<rparr>"
  show ?case
  proof (cases "blob_class_at (base_blob_class cls) path")
    case None
    then show ?thesis by (simp add: shield_class_at)
  next
    case (Some bc)
    show ?thesis
    proof (cases "map_of (attrs bc) k")
      case attr: (Some attr)
      show ?thesis
      proof (cases "value")
        case (DVal v)
        have "andthen (set_attr_val cls r path k (if v \<noteq> Unset then a_deserialize attr v else v) False True w)
                (\<lambda>u. blob_deserialize ?cls r path rest) =
              andthen (set_attr_val cls r path k (if v \<noteq> Unset then a_deserialize attr v else v) False True w)
                (\<lambda>u. blob_deserialize cls r path rest)"
          using 2(4) [OF Some attr DVal]
          by (cases "set_attr_val cls r path k (if v \<noteq> Unset then a_deserialize attr v else v) False True w")
            (auto simp add: andthen_def split: sum.splits)
        then show ?thesis using Some attr DVal
          by (cases "v = Unset")
            (simp_all add: shield_class_at shield_lookup set_attr_val_shield shield_hooks)
      qed (use Some attr in \<open>simp_all add: shield_class_at shield_lookup\<close>)
    next
      case None
      show ?thesis
      proof (cases "map_of (blob_classes bc) k")
        case bnone: None
        then show ?thesis using Some None 2(3) [OF Some None] by (simp add: shield_class_at shield_lookup)
      next
        case bsome: (Some bc')
        show ?thesis
        proof (cases "value")
          case (DDict d)
          have ne: "map_of (blob_classes bc) k \<noteq> None" using bsome by simp
          have i1: "blob_deserialize ?cls r (path @ [k]) d w = blob_deserialize cls r (path @ [k]) d w"
            using 2(1) [OF Some None ne DDict] .
          have "andthen (blob_deserialize cls r (path @ [k]) d w) (\<lambda>u. blob_deserialize ?cls r path rest) =
                andthen (blob_deserialize cls r (path @ [k]) d w) (\<lambda>u. blob_deserialize cls r path rest)"
            using 2(2) [OF Some None ne DDict]
            by (cases "blob_deserialize cls r (path @ [k]) d w") (auto simp add: andthen_def split: sum.splits)
          then show ?thesis using Some None bsome DDict i1
            by (simp add: shield_class_at shield_lookup)
        qed (use Some None bsome in \<open>simp_all add: shield_class_at shield_lookup\<close>)
      qed
    qed
  qed
qed

subsection \<open>\<open>load\<close>\<close>








lemma named_key_name [simp]: "get_key_name Named = ''name''"
  by (simp add: get_key_name_def Named_def)



subsection \<open>Field writes\<close>










text \<open>
  A write that changes the key, and the \<open>save\<close> that follows it directly: the
  cache has the entity under the new key and nothing under the old one, the tag
  \<open>_old_key\<close> holds the old key, and the \<open>save\<close> leaves the store without a
  record under the old key.
\<close>

lemma key_change_then_save:
  assumes before: "heap w r = Some entity"
    and commit: "commit_attr_val cls r path name value' w = (res, w')"
    and after: "heap w' r = Some entity'"
    and changed: "key cls entity' \<noteq> key cls entity"
    and cache: "map_of (caches w) (get_key_name cls) = Some cache"
  shows "res = Inr () \<and>
         (\<exists>cache'. map_of (caches w') (get_key_name cls) = Some cache' \<and>
            lru_lookup cache' (key cls entity) = None \<and>
            lru_lookup cache' (key cls entity') = Some r) \<and>
         map_of (tags entity') ''_old_key'' = Some (key cls entity) \<and>
         is_dirty entity' \<and>
         (\<forall>s. store w' = Some s \<and> savable entity' \<longrightarrow>
            (\<exists>s'. store (snd (save cls r w')) = Some s' \<and> \<not> store_has s' (key cls entity) \<and>
               (\<forall>data. entity_serialize cls (entity'\<lparr>tags := AList.delete ''_old_key'' (tags entity')\<rparr>) = Inr data \<longrightarrow>
                  fst (save cls r w') = Inr () \<and> store_get s' (key cls entity') = Inr data)))"
proof -
  let ?e1 = "entity\<lparr>base_blob := blob_assign (base_blob entity) path name value'\<rparr>"
  let ?e2 = "?e1\<lparr>tags := AList.update ''_old_key'' (key cls entity) (tags entity), is_dirty := True\<rparr>"
  note c = commit_attr_val_committed [OF before, of cls path name value']
  have res: "res = Inr ()" using c commit by simp
  have neq: "key cls ?e1 \<noteq> key cls entity"
  proof
    assume eq: "key cls ?e1 = key cls entity"
    with c commit have "w' = w\<lparr>heap := (heap w)(r \<mapsto> ?e1\<lparr>is_dirty := True\<rparr>)\<rparr>" by simp
    with after have "entity' = ?e1\<lparr>is_dirty := True\<rparr>" by simp
    with eq changed show False by simp
  qed
  have w': "w' = relocate cls r (key cls entity) (key cls ?e1) (w\<lparr>heap := (heap w)(r \<mapsto> ?e2)\<rparr>)"
    using c commit neq by simp
  have e': "entity' = ?e2" using after w' by simp
  have k': "key cls entity' = key cls ?e1" using e' by simp
  have "\<exists>cache'. map_of (caches w') (get_key_name cls) = Some cache' \<and>
            lru_lookup cache' (key cls entity) = None \<and>
            lru_lookup cache' (key cls ?e1) = Some r"
    unfolding w' by (rule relocate_cache) (use cache neq in simp_all)
  moreover have tag: "map_of (tags entity') ''_old_key'' = Some (key cls entity)"
    using e' by (simp add: update_conv')
  moreover have "is_dirty entity'" using e' by simp
  moreover have "\<exists>s'. store (snd (save cls r w')) = Some s' \<and> \<not> store_has s' (key cls entity) \<and>
               (\<forall>data. entity_serialize cls (entity'\<lparr>tags := AList.delete ''_old_key'' (tags entity')\<rparr>) = Inr data \<longrightarrow>
                  fst (save cls r w') = Inr () \<and> store_get s' (key cls entity') = Inr data)"
    if "store w' = Some s" "savable entity'" for s
    using after that tag changed by (rule save_retires_old_key)
  ultimately show ?thesis using k' res by simp
qed

lemma named_rename:
  "entity_setattr Named 0 ''name'' (PStr new)
     (named_world (named_entity (PStr old) ts d) [(PStr old, 0)] st) =
   (Inr (), if new = old then named_world (named_entity (PStr old) ts True) [(PStr old, 0)] st
            else named_world (named_entity (PStr new) (AList.update ''_old_key'' (PStr old) ts) True) [(PStr new, 0)] st)"
  apply (simp add: entity_setattr_def Named_def Attribute_def EntityVersion_def)
  apply (simp add: set_attr_val_def commit_attr_val_def andthen_def named_world_def named_entity_def key_def get_attr_val_def)
  apply (simp add: relocate_def get_key_name_def lru_contains_def lru_del_def lru_set_def
      AList.delete_eq named_world_def named_entity_def)
  apply (simp only: Let_def)
  apply simp
  done

lemma named_save:
  "save Named 0 (named_world (named_entity nm [(''_old_key'', old)] d) cached st) =
   (Inr (), named_world (named_entity nm [] False) cached
              (store_put (if store_has st old then store_delete st old else st) nm (named_data nm)))"
proof -
  have s: "entity_serialize Named (named_entity nm [] True) = Inr (named_data nm)"
    by (rule named_serialize)
  have e: "(named_entity nm [(''_old_key'', old)] d)\<lparr>tags := [], is_dirty := True\<rparr> = named_entity nm [] True"
    "(named_entity nm [] True)\<lparr>is_dirty := False\<rparr> = named_entity nm [] False"
    "tags (named_entity nm [(''_old_key'', old)] d) = [(''_old_key'', old)]"
    "savable (named_entity nm [(''_old_key'', old)] d)"
    by (simp_all add: named_entity_def)
  show ?thesis
    by (simp add: save_def named_world_def AList.delete_eq e s)
qed

text \<open>
  Claim C1. A committed write that changes the key moves the cache entry and
  records the key it replaced, but in one slot: the tag \<open>_old_key\<close> is assigned
  by every such write, and \<open>save\<close> deletes the record under the tag's key only.
  The comment in \<open>_set_attr_val\<close> states the aim, "we need to note the old one so
  it can get updated in the store", and a second key change before the \<open>save\<close>
  misses it. The entity stored under \<open>"A"\<close> is renamed. When it is saved right
  after \<open>name = "B"\<close>, the store has the record under \<open>"B"\<close> alone. When
  \<open>name = "C"\<close> comes first, the tag is overwritten with \<open>"B"\<close>, the \<open>save\<close>
  finds no record under \<open>"B"\<close> to delete, and the store ends with the stale
  record under \<open>"A"\<close> beside the new one under \<open>"C"\<close>.
\<close>

theorem second_key_change_before_save_leaves_stale_record:
  "entity_setattr Named 0 ''name'' (PStr ''B'') named_w3 =
     (Inr (), named_world (named_entity (PStr ''B'') [(''_old_key'', PStr ''A'')] True) [(PStr ''B'', 0)]
                [(PStr ''A'', named_data (PStr ''A''))]) \<and>
   save Named 0 (named_world (named_entity (PStr ''B'') [(''_old_key'', PStr ''A'')] True) [(PStr ''B'', 0)]
                [(PStr ''A'', named_data (PStr ''A''))]) =
     (Inr (), named_world (named_entity (PStr ''B'') [] False) [(PStr ''B'', 0)]
                [(PStr ''B'', named_data (PStr ''B''))]) \<and>
   entity_setattr Named 0 ''name'' (PStr ''C'')
       (named_world (named_entity (PStr ''B'') [(''_old_key'', PStr ''A'')] True) [(PStr ''B'', 0)]
                [(PStr ''A'', named_data (PStr ''A''))]) =
     (Inr (), named_world (named_entity (PStr ''C'') [(''_old_key'', PStr ''B'')] True) [(PStr ''C'', 0)]
                [(PStr ''A'', named_data (PStr ''A''))]) \<and>
   save Named 0 (named_world (named_entity (PStr ''C'') [(''_old_key'', PStr ''B'')] True) [(PStr ''C'', 0)]
                [(PStr ''A'', named_data (PStr ''A''))]) =
     (Inr (), named_world (named_entity (PStr ''C'') [] False) [(PStr ''C'', 0)]
                [(PStr ''A'', named_data (PStr ''A'')), (PStr ''C'', named_data (PStr ''C''))])"
  by (simp add: named_rename named_save named_w3_def store_has_def store_put_def store_delete_def)

subsection \<open>The round trip\<close>

text \<open>
  Claim C3. Let the blob class have names that do not collide (\<open>wf_class\<close>), let
  \<open>src\<close> be an instance of it (a freshly constructed one is) whose descriptors'
  \<open>_serialize\<close> and \<open>_deserialize\<close> hooks undo each other on the values it holds,
  and let the entity \<open>r\<close> have an instance of the same class as its base blob.
  Then \<open>src.serialize()\<close> returns data, \<open>deserialize\<close> of that data into the
  entity's blob succeeds, and the entity's blob is then equal to \<open>src\<close>, sub-blobs
  included: every field has the value it has in \<open>src\<close>, and a field that is
  \<open>Unset\<close> in \<open>src\<close> is \<open>Unset\<close>, whatever the entity held before. The sentinel
  reaches no \<open>_serialize\<close> or \<open>_deserialize\<close> hook: when the hooks are replaced
  by hooks that answer an arbitrary value \<open>u\<close> on \<open>Unset\<close> and are the same
  everywhere else, \<open>serialize\<close> returns the same data and \<open>deserialize\<close> ends in
  the same state.
\<close>

theorem serialize_deserialize_roundtrip:
  assumes "wf_class (base_blob_class cls)"
    and "heap w r = Some e"
    and "conforms (base_blob_class cls) (base_blob e)"
    and "conforms (base_blob_class cls) src"
    and "hooks_ok (base_blob_class cls) src"
  shows "conforms (base_blob_class cls) (new_blob (base_blob_class cls)) \<and>
         (\<exists>data w' e'.
            blob_serialize (base_blob_class cls) src = Inr data \<and>
            blob_deserialize cls r [] data w = (Inr (), w') \<and>
            heap w' r = Some e' \<and> base_blob e' = src \<and>
            (\<forall>u. blob_serialize (shield u (base_blob_class cls)) src = Inr data \<and>
                 blob_deserialize (cls\<lparr>base_blob_class := shield u (base_blob_class cls)\<rparr>) r [] data w =
                   (Inr (), w')))"
proof -
  let ?bc = "base_blob_class cls"
  from serialize_load_into [OF assms(1,4,5)] obtain data where
    ser: "blob_serialize ?bc src = Inr data"
    and ld: "\<forall>t. conforms ?bc t \<longrightarrow> load_into ?bc data t = Some src"
    by blast
  have d: "deserialized ?bc [] data (base_blob e) = Some src"
    using deserialized_load_into [of ?bc "[]" ?bc "base_blob e" "base_blob e" data] assms(3) ld
    by simp
  from blob_deserialize_effect [OF assms(2), of cls "[]" data] obtain w' e' res where
    run: "blob_deserialize cls r [] data w = (res, w')" and h': "heap w' r = Some e'"
    and res: "case res of
              Inr u \<Rightarrow> deserialized ?bc [] data (base_blob e) = Some (base_blob e')
            | Inl err \<Rightarrow> deserialized ?bc [] data (base_blob e) = None"
    by blast
  from res d have r1: "res = Inr ()" and b: "base_blob e' = src"
    by (cases res; simp)+
  have "blob_serialize (shield u ?bc) src = Inr data \<and>
        blob_deserialize (cls\<lparr>base_blob_class := shield u ?bc\<rparr>) r [] data w = (Inr (), w')" for u
    using ser run r1 by (simp add: serialize_shield deserialize_shield)
  with ser run r1 h' b conforms_new_blob [of ?bc] show ?thesis by blast
qed

theorem serialize_deserialize_roundtrip_witness:
  "new_blob (base_blob_class Named) = Blob [(''version'', PInt 1), (''name'', Unset)] [] \<and>
   heap named_w2 0 = Some (named_entity (PStr ''A'') [(''_old_key'', Unset)] True) \<and>
   (\<exists>data w' e'.
      blob_serialize (base_blob_class Named) (new_blob (base_blob_class Named)) = Inr data \<and>
      blob_deserialize Named 0 [] data named_w2 = (Inr (), w') \<and>
      heap w' 0 = Some e' \<and> base_blob e' = Blob [(''version'', PInt 1), (''name'', Unset)] [])"
proof -
  let ?src = "Blob [(''version'', PInt 1), (''name'', Unset)] []"
  have n: "new_blob (base_blob_class Named) = ?src"
    by (simp add: Named_def EntityVersion_def Attribute_def)
  have h1: "wf_class (base_blob_class Named)" by (simp add: Named_def)
  have h2: "heap named_w2 0 = Some (named_entity (PStr ''A'') [(''_old_key'', Unset)] True)"
    by (simp add: named_w2_def)
  have h3: "conforms (base_blob_class Named) (base_blob (named_entity (PStr ''A'') [(''_old_key'', Unset)] True))"
    by (simp add: Named_def named_entity_def)
  have h4: "conforms (base_blob_class Named) ?src" by (simp add: Named_def)
  have h5: "hooks_ok (base_blob_class Named) ?src"
    by (simp add: Named_def hook_ok_def get_attr_val_def EntityVersion_def Attribute_def)
  from serialize_deserialize_roundtrip [OF h1 h2 h3 h4 h5] n h2 show ?thesis by auto
qed

section \<open>Properties of registration and schema composition\<close>

lemma hasattr_own: "name \<in> set (cs_names (table (class_name cls))) \<Longrightarrow> hasattr table cls name"
  by (cases cls) simp

text \<open>
  Claim C9. Registering an entity type whose class name is registered fails with
  \<open>AlreadyExists\<close>; registering one whose name is new and whose \<open>_uid_code\<close> is
  that of a registered type fails with \<open>KeyError\<close> (the name is checked first);
  so after a type is registered, a second type with the same code is refused
  whatever its name. Registering a field under a name that is registered on the
  same class fails with \<open>AlreadyExists\<close>.
\<close>

theorem registration_rejects_duplicates:
  "(map_of entities name \<noteq> None \<longrightarrow>
      register entities (EntitySubclass name code) = Inl AlreadyExists) \<and>
   (map_of entities name = None \<and> code \<in> set (map snd entities) \<longrightarrow>
      register entities (EntitySubclass name code) = Inl KeyError) \<and>
   (register entities (EntitySubclass name code) = Inr entities' \<longrightarrow>
      register entities' (EntitySubclass name' code) =
        Inl (if map_of entities' name' \<noteq> None then AlreadyExists else KeyError)) \<and>
   (register_attr cls field (AttributeSubclass attr_class) table = Inr table' \<longrightarrow>
      register_attr cls field decorated table' = Inl AlreadyExists)"
proof -
  have third: "register entities' (EntitySubclass name' code) =
        Inl (if map_of entities' name' \<noteq> None then AlreadyExists else KeyError)"
    if reg: "register entities (EntitySubclass name code) = Inr entities'"
  proof -
    from reg have e': "entities' = AList.update name code entities"
      by (simp split: if_splits)
    have "map_of entities' name = Some code" by (simp add: e' update_conv')
    then have "(name, code) \<in> set entities'" by (rule map_of_SomeD)
    then have "code \<in> set (map snd entities')" by force
    then show ?thesis by simp
  qed
  have fourth: "register_attr cls field decorated table' = Inl AlreadyExists"
    if reg: "register_attr cls field (AttributeSubclass attr_class) table = Inr table'"
  proof -
    from reg have "field \<in> set (cs_names (table' (class_name cls)))"
      by (auto simp add: register_attr_def split: if_splits)
    then have "hasattr table' cls field" by (rule hasattr_own)
    then show ?thesis by (simp add: register_attr_def)
  qed
  show ?thesis using third fourth by simp
qed

lemma hasattr_Base_foo: "\<not> hasattr table0 Base_h ''foo''" "\<not> hasattr table0 Derived_h ''foo''"
  by (simp_all add: Base_h_def Derived_h_def Entity_h_def table0_def)

theorem registration_rejects_duplicates_witness:
  "register [(''Room'', ''R'')] (EntitySubclass ''Room'' ''X'') = Inl AlreadyExists \<and>
   register [(''Room'', ''R'')] (EntitySubclass ''Cave'' ''R'') = Inl KeyError \<and>
   register [] (EntitySubclass ''Room'' ''R'') = Inr [(''Room'', ''R'')] \<and>
   register [(''Room'', ''R'')] (EntitySubclass ''Room'' ''R'') = Inl AlreadyExists \<and>
   (\<exists>table'. register_attr Base_h ''foo'' (AttributeSubclass BaseFoo) table0 = Inr table' \<and>
      register_attr Base_h ''foo'' (AttributeSubclass DerivedFoo) table' = Inl AlreadyExists)"
proof -
  note main = registration_rejects_duplicates
  have r0: "register [] (EntitySubclass ''Room'' ''R'') = Inr [(''Room'', ''R'')]" by simp
  have a: "register [(''Room'', ''R'')] (EntitySubclass ''Room'' ''X'') = Inl AlreadyExists"
    using main [of "[(''Room'', ''R'')]" "''Room''" "''X''", THEN conjunct1] by simp
  have b: "register [(''Room'', ''R'')] (EntitySubclass ''Cave'' ''R'') = Inl KeyError"
    using main [of "[(''Room'', ''R'')]" "''Cave''" "''R''", THEN conjunct2, THEN conjunct1] by simp
  have c: "register [(''Room'', ''R'')] (EntitySubclass ''Room'' ''R'') = Inl AlreadyExists"
    using main [of "[]" "''Room''" "''R''" "[(''Room'', ''R'')]" "''Room''",
        THEN conjunct2, THEN conjunct2, THEN conjunct1] r0 by simp
  obtain table' where t: "register_attr Base_h ''foo'' (AttributeSubclass BaseFoo) table0 = Inr table'"
    by (simp add: register_attr_def hasattr_Base_foo)
  have d: "register_attr Base_h ''foo'' (AttributeSubclass DerivedFoo) table' = Inl AlreadyExists"
    using main [of _ _ _ _ _ Base_h "''foo''" BaseFoo table0 table' "AttributeSubclass DerivedFoo",
        THEN conjunct2, THEN conjunct2, THEN conjunct2] t by simp
  from a b c d r0 t show ?thesis by blast
qed

lemma dict_update_single [simp]: "dict_update d [] = d" "dict_update d (kv # rest) = dict_update (AList.update (fst kv) (snd kv) d) rest"
  by (simp_all add: dict_update_def)

lemma is_entity_hs [simp]: "is_entity_class Entity_h" "is_entity_class Base_h" "is_entity_class Derived_h"
  "\<not> is_entity_class (Class ''HasFlags'' [Class ''object'' []])"
  "\<not> is_entity_class (Class ''HasTags'' [Class ''object'' []])"
  "\<not> is_entity_class (Class ''HasWeaks'' [Class ''object'' []])"
  by (simp_all add: Entity_h_def Base_h_def Derived_h_def)

lemma foo_registered:
  "\<exists>t1 t2 t3 t4. register_attr Derived_h ''foo'' (AttributeSubclass DerivedFoo) table0 = Inr t1 \<and>
     register_blob Derived_h ''stats'' (DataBlobSubclass DerivedStats) t1 = Inr t2 \<and>
     register_attr Base_h ''foo'' (AttributeSubclass BaseFoo) t2 = Inr t3 \<and>
     register_blob Base_h ''stats'' (DataBlobSubclass BaseStats) t3 = Inr t4 \<and>
     cs_attrs (t4 ''Derived'') = cs_attrs (table_foo ''Derived'') \<and>
     cs_blobs (t4 ''Derived'') = cs_blobs (table_foo ''Derived'') \<and>
     cs_attrs (t4 ''Base'') = cs_attrs (table_foo ''Base'') \<and>
     cs_blobs (t4 ''Base'') = cs_blobs (table_foo ''Base'') \<and>
     cs_attrs (t4 ''Entity'') = cs_attrs (table_foo ''Entity'')"
  by (simp add: register_attr_def register_blob_def Base_h_def Derived_h_def Entity_h_def table0_def table_foo_def)

text \<open>
  Claim C4, at \<open>Derived\<close> of the example hierarchy. Every entity class among the
  ancestors is merged once, in the order \<open>Entity\<close>, \<open>Base\<close>, \<open>Derived\<close>, and the
  sub-blob \<open>stats\<close> of the built blob is the one of \<open>Derived\<close>. The field \<open>foo\<close>,
  which both \<open>Base\<close> and \<open>Derived\<close> register, ends with the default and the
  descriptor of \<open>Base\<close>: \<open>_update\<close> writes the ancestors' descriptors into the
  \<open>_attrs\<close> dict of \<open>Derived\<close>'s own blob class, so the final merge of \<open>Derived\<close>
  finds the ancestor's descriptor there.
\<close>

theorem derived_field_loses_to_ancestor:
  "bs_checked (init_base_blob Derived_h table_foo) = [''Entity'', ''Base'', ''Derived''] \<and>
   map_of (bi_blobs (bs_blob (init_base_blob Derived_h table_foo))) ''stats'' = Some (new_blob DerivedStats) \<and>
   map_of (bi_attr_values (bs_blob (init_base_blob Derived_h table_foo))) ''foo'' = Some (PStr ''base'') \<and>
   map_option a_default (map_of (cs_attrs (bs_table (init_base_blob Derived_h table_foo) ''Derived'')) ''foo'') =
     Some (PStr ''base'') \<and>
   a_default DerivedFoo = PStr ''derived''"
  by (simp add: init_base_blob_def Derived_h_def Base_h_def Entity_h_def table_foo_def table0_def
      instantiate_def update_blob_def Let_def BaseFoo_def DerivedFoo_def BaseStats_def
      DerivedStats_def EntityVersion_def Attribute_def)

end
